theory Spec2Isabelle
  imports Main "HOL-Library.Multiset"
begin

section \<open>Go values\<close>

text \<open>
  A Go \<^verbatim>\<open>string\<close> and a \<^verbatim>\<open>[]byte\<close> are both sequences of bytes: they are modelled as
  \<^typ>\<open>string\<close> (a list of 8-bit characters). A Go \<^verbatim>\<open>error\<close> is modelled by its message;
  \<^verbatim>\<open>nil\<close> is \<^term>\<open>None\<close>, and a function returning \<^verbatim>\<open>(T, error)\<close> returns
  \<open>error + T\<close> with \<^term>\<open>Inl\<close> for the error. Go's \<^verbatim>\<open>int\<close> and \<^verbatim>\<open>int64\<close> are modelled as
  \<^typ>\<open>int\<close>: the counters and sizes of this program count list elements and bytes of files
  held in memory, which stay far below \<open>2^63\<close>. The one place where a value can leave the
  64-bit range (the conversion at the end of \<open>ParseSize\<close>) is written out there.
\<close>

type_synonym error = string

subsection \<open>The functions of package strings that the program calls\<close>

text \<open>
  White space. \<^verbatim>\<open>strings.TrimSpace\<close> and \<^verbatim>\<open>strings.Fields\<close> decode their argument as UTF-8
  and test each code point with \<^verbatim>\<open>unicode.IsSpace\<close>: the six ASCII characters tab, line
  feed, vertical tab, form feed, carriage return and space, and U+0085, U+00A0, U+1680,
  U+2000 to U+200A, U+2028, U+2029, U+202F, U+205F and U+3000. \<open>unicode_spaces\<close> lists
  their UTF-8 encodings. A byte that starts no valid encoding decodes as U+FFFD, of width
  one, which is no white space; the bytes of an encoding after its first are continuation
  bytes, which start none of the listed sequences. So a white-space code point begins at a
  byte offset exactly when one of the listed sequences begins there, in any byte string,
  and \<open>space_len\<close> is the width of the white-space code point at the head of a string
  (0 when there is none).
\<close>

definition unicode_spaces :: "string list" where
  "unicode_spaces =
     [[CHR 0x09], [CHR 0x0A], [CHR 0x0B], [CHR 0x0C], [CHR 0x0D], [CHR 0x20],
      [CHR 0xC2, CHR 0x85], [CHR 0xC2, CHR 0xA0], [CHR 0xE1, CHR 0x9A, CHR 0x80],
      [CHR 0xE2, CHR 0x80, CHR 0x80], [CHR 0xE2, CHR 0x80, CHR 0x81],
      [CHR 0xE2, CHR 0x80, CHR 0x82], [CHR 0xE2, CHR 0x80, CHR 0x83],
      [CHR 0xE2, CHR 0x80, CHR 0x84], [CHR 0xE2, CHR 0x80, CHR 0x85],
      [CHR 0xE2, CHR 0x80, CHR 0x86], [CHR 0xE2, CHR 0x80, CHR 0x87],
      [CHR 0xE2, CHR 0x80, CHR 0x88], [CHR 0xE2, CHR 0x80, CHR 0x89],
      [CHR 0xE2, CHR 0x80, CHR 0x8A], [CHR 0xE2, CHR 0x80, CHR 0xA8],
      [CHR 0xE2, CHR 0x80, CHR 0xA9], [CHR 0xE2, CHR 0x80, CHR 0xAF],
      [CHR 0xE2, CHR 0x81, CHR 0x9F], [CHR 0xE3, CHR 0x80, CHR 0x80]]"

definition space_len :: "string list \<Rightarrow> string \<Rightarrow> nat" where
  "space_len seqs s =
     (case find (\<lambda>sp. take (length sp) s = sp) seqs of None \<Rightarrow> 0 | Some sp \<Rightarrow> length sp)"

text \<open>
  \<^verbatim>\<open>strings.TrimSpace\<close>: the leading white-space code points are dropped, then the
  trailing ones (\<open>skip\<close> counts the bytes of a code point that remain to be dropped). From
  the end, a white-space code point ends a string exactly when its encoding does.
\<close>

fun trim_left :: "string list \<Rightarrow> nat \<Rightarrow> string \<Rightarrow> string" where
  "trim_left seqs skip [] = []"
| "trim_left seqs skip (c # cs) =
     (if skip > 0 then trim_left seqs (skip - 1) cs
      else if space_len seqs (c # cs) > 0 then trim_left seqs (space_len seqs (c # cs) - 1) cs
      else c # cs)"

definition TrimSpace :: "string \<Rightarrow> string" where
  "TrimSpace s = rev (trim_left (map rev unicode_spaces) 0 (rev (trim_left unicode_spaces 0 s)))"

text \<open>
  \<^verbatim>\<open>strings.ToUpper\<close> and \<^verbatim>\<open>strings.ToLower\<close> map the ASCII letters and leave every other
  byte of an ASCII string as it is. Outside ASCII, Go also maps the letters of other
  scripts and replaces a byte that is no valid UTF-8 by U+FFFD; the only code points
  beyond ASCII that it maps to an ASCII letter are U+0131 and U+017F (to \<open>I\<close> and \<open>S\<close>) for
  \<open>ToUpper\<close> and U+0130 and U+212A (to \<open>i\<close> and \<open>k\<close>) for \<open>ToLower\<close>. The program compares
  the results with \<open>B\<close>, \<open>KB\<close>, \<open>MB\<close>, \<open>GB\<close>, \<open>TB\<close> and with \<open>.eml\<close>, \<open>.json\<close>, \<open>.mbox\<close>, which
  have none of these four letters, and scans them for digits and dots: the comparisons
  and the scan come out the same on every byte string. Only the text of an error message
  that quotes such a string can differ.
\<close>

definition upper_char :: "char \<Rightarrow> char" where
  "upper_char c =
     (case map_of (zip ''abcdefghijklmnopqrstuvwxyz'' ''ABCDEFGHIJKLMNOPQRSTUVWXYZ'') c of
        Some u \<Rightarrow> u | None \<Rightarrow> c)"

definition lower_char :: "char \<Rightarrow> char" where
  "lower_char c =
     (case map_of (zip ''ABCDEFGHIJKLMNOPQRSTUVWXYZ'' ''abcdefghijklmnopqrstuvwxyz'') c of
        Some l \<Rightarrow> l | None \<Rightarrow> c)"

definition ToUpper :: "string \<Rightarrow> string" where
  "ToUpper s = map upper_char s"

definition ToLower :: "string \<Rightarrow> string" where
  "ToLower s = map lower_char s"

text \<open>
  \<^verbatim>\<open>strings.Fields\<close>: the maximal runs of bytes between white-space code points; \<open>w\<close> is
  the run being read and \<open>skip\<close> the number of bytes of a white-space code point that remain
  to be passed.
\<close>

fun fields_from :: "nat \<Rightarrow> string \<Rightarrow> string \<Rightarrow> string list" where
  "fields_from skip w [] = (if w = [] then [] else [w])"
| "fields_from skip w (c # cs) =
     (if skip > 0 then fields_from (skip - 1) w cs
      else if space_len unicode_spaces (c # cs) > 0
      then (if w = [] then fields_from (space_len unicode_spaces (c # cs) - 1) [] cs
            else w # fields_from (space_len unicode_spaces (c # cs) - 1) [] cs)
      else fields_from 0 (w @ [c]) cs)"

definition Fields :: "string \<Rightarrow> string list" where
  "Fields s = fields_from 0 [] s"

text \<open>\<^verbatim>\<open>strings.Split\<close> with a one-character separator: always at least one piece.\<close>

fun split_from :: "char \<Rightarrow> string \<Rightarrow> string \<Rightarrow> string list" where
  "split_from sep w [] = [w]"
| "split_from sep w (c # cs) =
     (if c = sep then w # split_from sep [] cs else split_from sep (w @ [c]) cs)"

definition Split :: "string \<Rightarrow> char \<Rightarrow> string list" where
  "Split s sep = split_from sep [] s"

fun Join :: "string list \<Rightarrow> string \<Rightarrow> string" where
  "Join [] sep = []"
| "Join [x] sep = x"
| "Join (x # y # ys) sep = x @ sep @ Join (y # ys) sep"

text \<open>\<^verbatim>\<open>strings.TrimRight(s, "=")\<close>, the only cutset the program uses.\<close>

definition TrimRight :: "string \<Rightarrow> char \<Rightarrow> string" where
  "TrimRight s c = rev (dropWhile (\<lambda>x. x = c) (rev s))"

definition ReplaceAll :: "string \<Rightarrow> char \<Rightarrow> char \<Rightarrow> string" where
  "ReplaceAll s old new = map (\<lambda>x. if x = old then new else x) s"

text \<open>The verb \<^verbatim>\<open>%d\<close> of \<^verbatim>\<open>fmt.Sprintf\<close>.\<close>

fun digits_of :: "nat \<Rightarrow> string" where
  "digits_of n =
     (if n < 10 then [''0123456789'' ! n]
      else digits_of (n div 10) @ [''0123456789'' ! (n mod 10)])"

definition itoa :: "int \<Rightarrow> string" where
  "itoa i = (if i < 0 then CHR ''-'' # digits_of (nat (- i)) else digits_of (nat i))"

section \<open>Package filters\<close>

text \<open>
  The filter configuration. \<^verbatim>\<open>time.Duration\<close> is a number of nanoseconds; a
  \<^verbatim>\<open>*time.Time\<close> is \<^term>\<open>None\<close> for \<^verbatim>\<open>nil\<close> and an instant in nanoseconds otherwise;
  \<^verbatim>\<open>*bool\<close> likewise.
\<close>

record filters_Config =
  To :: string
  From :: string
  Subject :: string
  IncludesWords :: string
  ExcludesWords :: string
  SizeGreaterThan :: int
  SizeLessThan :: int
  DateWithin :: int
  DateAfter :: "int option"
  DateBefore :: "int option"
  HasAttachment :: "bool option"
  ExcludeChats :: bool
  Labels :: string
  SearchScope :: string

text \<open>
  Two computations of package time are taken as parameters, since they are not code of
  this program: \<open>time_Format\<close> is \<^verbatim>\<open>t.Format("2006/01/02")\<close>, and \<open>whole_days\<close> is
  \<^verbatim>\<open>int(d.Hours() / 24)\<close>, a floating-point division.
\<close>

record timelib =
  time_Format :: "int \<Rightarrow> string"
  whole_days :: "int \<Rightarrow> int"

definition excluded_parts :: "string \<Rightarrow> string list" where
  "excluded_parts s = (if s \<noteq> [] then map (\<lambda>word. ''-'' @ word) (Fields s) else [])"

definition label_parts :: "string \<Rightarrow> string list" where
  "label_parts s =
     (if s \<noteq> [] then
        concat (map (\<lambda>label. let label = TrimSpace label
                             in if label \<noteq> [] then [''label:'' @ label] else [])
                    (Split s CHR '',''))
      else [])"

text \<open>The list \<^verbatim>\<open>parts\<close> of \<^verbatim>\<open>BuildGmailQuery\<close>, in the order of the appends.\<close>

definition query_parts :: "timelib \<Rightarrow> filters_Config \<Rightarrow> string list" where
  "query_parts L c =
     (if To c \<noteq> [] then [''to:'' @ To c] else []) @
     (if From c \<noteq> [] then [''from:'' @ From c] else []) @
     (if Subject c \<noteq> [] then [''subject:('' @ Subject c @ '')''] else []) @
     (if IncludesWords c \<noteq> [] then [IncludesWords c] else []) @
     excluded_parts (ExcludesWords c) @
     (if SizeGreaterThan c > 0 then [''size:'' @ itoa (SizeGreaterThan c)] else []) @
     (if SizeLessThan c > 0 then [''-size:'' @ itoa (SizeLessThan c)] else []) @
     (if DateWithin c > 0
      then [''newer_than:'' @ itoa (whole_days L (DateWithin c)) @ ''d''] else []) @
     (case DateAfter c of None \<Rightarrow> [] | Some t \<Rightarrow> [''after:'' @ time_Format L t]) @
     (case DateBefore c of None \<Rightarrow> [] | Some t \<Rightarrow> [''before:'' @ time_Format L t]) @
     (case HasAttachment c of None \<Rightarrow> []
        | Some b \<Rightarrow> (if b then [''has:attachment''] else [''-has:attachment''])) @
     (if ExcludeChats c then [''-in:chats''] else []) @
     label_parts (Labels c) @
     (if SearchScope c \<noteq> [] \<and> SearchScope c \<noteq> ''all_mail''
      then [''in:'' @ SearchScope c] else [])"

definition BuildGmailQuery :: "timelib \<Rightarrow> filters_Config \<Rightarrow> string" where
  "BuildGmailQuery L c = Join (query_parts L c) '' ''"

definition validScopes :: "string list" where
  "validScopes = [''all_mail'', ''inbox'', ''sent'', ''drafts'', ''spam'', ''trash'']"

definition Validate :: "filters_Config \<Rightarrow> error option" where
  "Validate c =
     (if SizeGreaterThan c > 0 \<and> SizeLessThan c > 0 \<and> SizeGreaterThan c \<ge> SizeLessThan c
      then Some ''size-greater-than must be less than size-less-than''
      else if (case (DateAfter c, DateBefore c) of
                 (Some a, Some b) \<Rightarrow> a > b | _ \<Rightarrow> False)
      then Some ''date-after must be before date-before''
      else if SearchScope c \<noteq> [] \<and> SearchScope c \<notin> set validScopes
      then Some (''invalid search scope: '' @ SearchScope c @ '' (valid: ''
                 @ Join validScopes '', '' @ '')'')
      else None)"

subsection \<open>ParseSize\<close>

definition isNumChar :: "char \<Rightarrow> bool" where
  "isNumChar r = (r \<in> set ''0123456789.'')"

definition digit_val :: "char \<Rightarrow> nat" where
  "digit_val c = (case map_of (zip ''0123456789'' [0, 1, 2, 3, 4, 5, 6, 7, 8, 9]) c of
                    Some d \<Rightarrow> d | None \<Rightarrow> 0)"

definition dec_value :: "string \<Rightarrow> nat" where
  "dec_value s = foldl (\<lambda>a c. 10 * a + digit_val c) 0 s"

text \<open>
  A \<^verbatim>\<open>float64\<close> that is not negative, infinite or NaN is a pair \<open>(m, t)\<close> standing for
  \<open>m * 2^t\<close>, with \<open>m < 2^53\<close> and \<open>- 1074 \<le> t\<close>. \<open>round_float64 n d\<close> is the \<^verbatim>\<open>float64\<close> nearest
  to the fraction \<open>n / d\<close>, ties going to the even significand, as IEEE 754 rounds and as
  \<^verbatim>\<open>strconv\<close> does: \<open>floor_log2 n d\<close> is the exponent \<open>e\<close> with \<open>2^e \<le> n / d < 2^(e + 1)\<close>,
  the unit of the last place is \<open>2^t\<close> for \<open>t = e - 52\<close>, and no smaller than \<open>2^(- 1074)\<close>,
  where the subnormal numbers lie. The rounding can carry the significand to \<open>2^53\<close>; the
  pair then stands for the same number as \<open>(2^52, t + 1)\<close>.
\<close>

fun bit_length :: "nat \<Rightarrow> nat" where
  "bit_length n = (if n = 0 then 0 else Suc (bit_length (n div 2)))"

definition floor_log2 :: "nat \<Rightarrow> nat \<Rightarrow> int" where
  "floor_log2 n d =
     (let e = int (bit_length n) - int (bit_length d)
      in if (if 0 \<le> e then d * 2 ^ nat e \<le> n else d \<le> n * 2 ^ nat (- e)) then e else e - 1)"

definition round_half_even :: "nat \<Rightarrow> nat \<Rightarrow> nat" where
  "round_half_even a b =
     (let q = a div b; r = a mod b
      in if 2 * r < b then q else if b < 2 * r then q + 1 else if even q then q else q + 1)"

definition round_float64 :: "nat \<Rightarrow> nat \<Rightarrow> nat \<times> int" where
  "round_float64 n d =
     (if n = 0 then (0, 0)
      else let t = max (floor_log2 n d - 52) (- 1074)
           in (if t \<le> 0 then round_half_even (n * 2 ^ nat (- t)) d
               else round_half_even n (d * 2 ^ nat t), t))"

text \<open>
  \<^verbatim>\<open>strconv.ParseFloat(numStr, 64)\<close> on the strings that reach it, which consist of digits
  and dots only: a syntax error without a digit or with a second dot; otherwise the
  decimal is rounded to the nearest \<^verbatim>\<open>float64\<close>, and a decimal that rounds to \<open>2^1024\<close> or
  beyond (from \<open>2^1024 - 2^970\<close> on) is a range error. A decimal too small for a
  \<^verbatim>\<open>float64\<close> rounds to 0 without an error.
\<close>

definition ParseFloat :: "string \<Rightarrow> error + (nat \<times> int)" where
  "ParseFloat s =
     (let ip = takeWhile (\<lambda>c. c \<noteq> CHR ''.'') s;
          fp = drop 1 (dropWhile (\<lambda>c. c \<noteq> CHR ''.'') s);
          f = round_float64 (dec_value (ip @ fp)) (10 ^ length fp)
      in if ip @ fp = [] \<or> CHR ''.'' \<in> set fp then Inl ''invalid syntax''
         else if 0 \<le> snd f \<and> 2 ^ 1024 \<le> fst f * 2 ^ nat (snd f) then Inl ''value out of range''
         else Inr f)"

definition size_multiplier :: "string \<Rightarrow> int option" where
  "size_multiplier unit =
     (if unit = [] \<or> unit = ''B'' then Some 1
      else if unit = ''KB'' then Some 1024
      else if unit = ''MB'' then Some (1024 * 1024)
      else if unit = ''GB'' then Some (1024 * 1024 * 1024)
      else if unit = ''TB'' then Some (1024 * 1024 * 1024 * 1024)
      else None)"

text \<open>
  \<^verbatim>\<open>int64(num * float64(multiplier))\<close>. The multiplier is a power of two up to \<open>2^40\<close>, so
  the floating-point product is exact, or infinite when it reaches \<open>2^1024\<close>. The conversion
  cuts the product to its integer part; a product from \<open>2^63\<close> on, infinity included, does
  not fit, and the conversion then yields the smallest \<^verbatim>\<open>int64\<close> on amd64.
\<close>

definition float_to_int64 :: "nat \<times> int \<Rightarrow> int \<Rightarrow> int" where
  "float_to_int64 num multiplier =
     (let p = int (fst num) * multiplier;
          v = (if 0 \<le> snd num then p * 2 ^ nat (snd num) else p div 2 ^ nat (- snd num))
      in if v < 2 ^ 63 then v else - (2 ^ 63))"

definition ParseSize :: "string \<Rightarrow> error + int" where
  "ParseSize sizeStr0 =
     (let sizeStr = ToUpper (TrimSpace sizeStr0);
          numStr = takeWhile isNumChar sizeStr;
          unit = dropWhile isNumChar sizeStr
      in if numStr = [] then Inl (''invalid size format: '' @ sizeStr)
         else case ParseFloat numStr of
           Inl err \<Rightarrow> Inl (''invalid number in size: '' @ numStr)
         | Inr num \<Rightarrow>
             (case size_multiplier unit of
                None \<Rightarrow> Inl (''invalid size unit: '' @ unit @ '' (valid: B, KB, MB, GB, TB)'')
              | Some multiplier \<Rightarrow> Inr (float_to_int64 num multiplier)))"

subsection \<open>Example values and the documented behaviour of the filters\<close>

text \<open>The zero value of the filter configuration: no field set.\<close>

definition empty_filter :: filters_Config where
  "empty_filter = \<lparr>To = [], From = [], Subject = [], IncludesWords = [], ExcludesWords = [],
     SizeGreaterThan = 0, SizeLessThan = 0, DateWithin = 0, DateAfter = None, DateBefore = None,
     HasAttachment = None, ExcludeChats = False, Labels = [], SearchScope = []\<rparr>"

text \<open>A time library for examples whose filter sets no date.\<close>

definition no_dates :: timelib where
  "no_dates = \<lparr>time_Format = (\<lambda>t. []), whole_days = (\<lambda>d. 0)\<rparr>"

text \<open>
  The failure condition of \<open>Validate\<close> as the specification words it, with the scope
  values it lists.
\<close>

definition spec_Validate_fails :: "filters_Config \<Rightarrow> bool" where
  "spec_Validate_fails c =
     ((SizeGreaterThan c > 0 \<and> SizeLessThan c > 0 \<and> SizeGreaterThan c \<ge> SizeLessThan c)
      \<or> (\<exists>a b. DateAfter c = Some a \<and> DateBefore c = Some b \<and> a > b)
      \<or> (SearchScope c \<noteq> [] \<and>
          SearchScope c \<notin> set [''all'', ''inbox'', ''sent'', ''drafts'', ''spam'', ''trash'']))"

text \<open>
  The subject clause as the specification words it: parentheses only around a subject
  with white space, that is, one in which a white-space code point begins somewhere.
\<close>

fun contains_space :: "string \<Rightarrow> bool" where
  "contains_space [] = False"
| "contains_space (c # cs) = (0 < space_len unicode_spaces (c # cs) \<or> contains_space cs)"

definition spec_subject_clause :: "string \<Rightarrow> string" where
  "spec_subject_clause s =
     (if contains_space s then ''subject:('' @ s @ '')'' else ''subject:'' @ s)"

section \<open>Base64 (package encoding/base64)\<close>

text \<open>
  The importer encodes a message with \<^verbatim>\<open>base64.URLEncoding.EncodeToString\<close> and strips the
  padding; the exporter restores the padding, maps the URL-safe alphabet to the standard
  one and calls \<^verbatim>\<open>base64.StdEncoding.DecodeString\<close>. Both library functions are written out:
  the encoder takes three bytes to four characters of the alphabet and pads the last group
  with \<open>=\<close>; the decoder skips carriage returns and line feeds, takes four characters to
  three bytes, accepts padding only in the last group with nothing after it, and rejects
  every other character and every incomplete group. (The decoder is not strict: it does
  not look at the unused low bits of a padded group.)
\<close>

definition encodeStd :: string where
  "encodeStd = ''ABCDEFGHIJKLMNOPQRSTUVWXYZabcdefghijklmnopqrstuvwxyz0123456789+/''"

definition encodeURL :: string where
  "encodeURL = ''ABCDEFGHIJKLMNOPQRSTUVWXYZabcdefghijklmnopqrstuvwxyz0123456789-_''"

text \<open>\<^verbatim>\<open>val := uint(src[0])<<16 | uint(src[1])<<8 | uint(src[2])\<close>, then four 6-bit indices.\<close>

fun EncodeToString :: "string \<Rightarrow> string \<Rightarrow> string" where
  "EncodeToString enc (a # b # c # rest) =
     (let val = (of_char a :: nat) * 65536 + of_char b * 256 + of_char c
      in [enc ! (val div 262144 mod 64), enc ! (val div 4096 mod 64),
          enc ! (val div 64 mod 64), enc ! (val mod 64)] @ EncodeToString enc rest)"
| "EncodeToString enc [a, b] =
     (let val = (of_char a :: nat) * 65536 + of_char b * 256
      in [enc ! (val div 262144 mod 64), enc ! (val div 4096 mod 64),
          enc ! (val div 64 mod 64), CHR ''=''])"
| "EncodeToString enc [a] =
     (let val = (of_char a :: nat) * 65536
      in [enc ! (val div 262144 mod 64), enc ! (val div 4096 mod 64), CHR ''='', CHR ''=''])"
| "EncodeToString enc [] = []"

fun index_of :: "'a list \<Rightarrow> 'a \<Rightarrow> nat option" where
  "index_of [] x = None"
| "index_of (y # ys) x = (if x = y then Some 0 else map_option Suc (index_of ys x))"

definition corrupt :: error where
  "corrupt = ''illegal base64 data''"

fun decode_quanta :: "string \<Rightarrow> string \<Rightarrow> error + string" where
  "decode_quanta enc [] = Inr []"
| "decode_quanta enc (c0 # c1 # c2 # c3 # rest) =
     (case (index_of enc c0, index_of enc c1) of
        (Some s0, Some s1) \<Rightarrow>
          (case (index_of enc c2, index_of enc c3) of
             (Some s2, Some s3) \<Rightarrow>
               (let val = s0 * 262144 + s1 * 4096 + s2 * 64 + s3
                in case decode_quanta enc rest of
                     Inl err \<Rightarrow> Inl err
                   | Inr out \<Rightarrow>
                       Inr ([char_of (val div 65536), char_of (val div 256), char_of val] @ out))
           | (Some s2, None) \<Rightarrow>
               (let val = s0 * 262144 + s1 * 4096 + s2 * 64
                in if c3 = CHR ''='' \<and> rest = []
                   then Inr [char_of (val div 65536), char_of (val div 256)]
                   else Inl corrupt)
           | (None, _) \<Rightarrow>
               (let val = s0 * 262144 + s1 * 4096
                in if c2 = CHR ''='' \<and> c3 = CHR ''='' \<and> rest = []
                   then Inr [char_of (val div 65536)]
                   else Inl corrupt))
      | _ \<Rightarrow> Inl corrupt)"
| "decode_quanta enc _ = Inl corrupt"

definition DecodeString :: "string \<Rightarrow> string \<Rightarrow> error + string" where
  "DecodeString enc s = decode_quanta enc (filter (\<lambda>c. c \<noteq> CHR 0x0D \<and> c \<noteq> CHR 0x0A) s)"

subsection \<open>The two functions of the program\<close>

definition encodeBase64URL :: "string \<Rightarrow> string" where
  "encodeBase64URL data = TrimRight (EncodeToString encodeURL data) CHR ''=''"

definition add_padding :: "string \<Rightarrow> string" where
  "add_padding data =
     (if length data mod 4 = 2 then data @ ''==''
      else if length data mod 4 = 3 then data @ ''=''
      else data)"

definition decodeBase64URL :: "string \<Rightarrow> error + string" where
  "decodeBase64URL data =
     DecodeString encodeStd
       (ReplaceAll (ReplaceAll (add_padding data) CHR ''-'' CHR ''+'') CHR ''_'' CHR ''/'')"

text \<open>The two replacements of \<open>decodeBase64URL\<close> as one map on characters.\<close>

definition to_std :: "char \<Rightarrow> char" where
  "to_std x = (let y = (if x = CHR ''-'' then CHR ''+'' else x)
               in if y = CHR ''_'' then CHR ''/'' else y)"

section \<open>The outside world\<close>

text \<open>
  The program talks to the mail service and to the file system. Both are made explicit.
  The state that the program changes is a record \<open>world\<close>: the contents of the files it
  writes and reads, the directories it creates, and the calls it has made to the mail
  service, in order. What the outside answers is a record \<open>env\<close> of functions: the
  responses of the mail service, which file-system operations fail, and the JSON
  (un)marshalling of package encoding/json. A failed \<^verbatim>\<open>os.WriteFile\<close> or \<^verbatim>\<open>os.MkdirAll\<close>
  changes nothing here.

  Durations and time stamps (\<^verbatim>\<open>time.Now\<close>, \<^verbatim>\<open>time.Since\<close>) are left out of the result and
  failure records; so are log lines and the progress line on standard output.
\<close>

datatype api_call =
    MessagesList string string
  | MessagesGet string string
  | MessagesImport string
  | MessagesModify string "string list"
  | MessagesDelete string

record world =
  files :: "string \<rightharpoonup> string"
  dirs :: "string set"
  calls :: "api_call list"

record message =
  Id :: string
  LabelIds :: "string list"

text \<open>The record that the exporter writes to its manifest and the cleaner reads back.\<close>

record ProcessedEmail =
  ID :: string
  Size :: int

record env =
  list_page :: "string \<Rightarrow> string \<Rightarrow> error + (string list \<times> string)"
  get_full :: "string \<Rightarrow> error + message"
  get_raw :: "string \<Rightarrow> error + string"
  import_message :: "string \<Rightarrow> error option"
  modify_message :: "string \<Rightarrow> string list \<Rightarrow> error option"
  delete_message :: "string \<Rightarrow> error option"
  mkdir_fails :: "string \<Rightarrow> error option"
  write_fails :: "string \<Rightarrow> error option"
  marshal_message :: "message \<Rightarrow> error + string"
  marshal_processed :: "ProcessedEmail list \<Rightarrow> error + string"
  unmarshal_processed :: "string \<Rightarrow> error + ProcessedEmail list"
  unmarshal_raw :: "string \<Rightarrow> error + string"
  marshal_metrics :: "int \<times> int \<times> int \<times> int \<Rightarrow> error + string"

definition api :: "api_call \<Rightarrow> world \<Rightarrow> world" where
  "api c w = w\<lparr>calls := calls w @ [c]\<rparr>"

definition WriteFile :: "env \<Rightarrow> string \<Rightarrow> string \<Rightarrow> world \<Rightarrow> error + world" where
  "WriteFile E name data w =
     (case write_fails E name of
        Some err \<Rightarrow> Inl err
      | None \<Rightarrow> Inr (w\<lparr>files := (files w)(name \<mapsto> data)\<rparr>))"

definition MkdirAll :: "env \<Rightarrow> string \<Rightarrow> world \<Rightarrow> error + world" where
  "MkdirAll E path w =
     (case mkdir_fails E path of
        Some err \<Rightarrow> Inl err
      | None \<Rightarrow> Inr (w\<lparr>dirs := insert path (dirs w)\<rparr>))"

definition ReadFile :: "string \<Rightarrow> world \<Rightarrow> error + string" where
  "ReadFile name w =
     (case files w name of
        None \<Rightarrow> Inl (''open '' @ name @ '': no such file or directory'')
      | Some data \<Rightarrow> Inr data)"

subsection \<open>Paths (package path/filepath)\<close>

text \<open>
  \<^verbatim>\<open>filepath.Clean\<close>, on the elements of the path between separators: empty elements and
  \<open>.\<close> are dropped; \<open>..\<close> removes the element before it, is dropped at the root of a rooted
  path, and stays at the head of a path that is not rooted; the remaining elements are
  joined by separators, after the leading separator of a rooted path, and the empty
  result is \<open>.\<close>.
\<close>

definition clean_step :: "bool \<Rightarrow> string list \<Rightarrow> string \<Rightarrow> string list" where
  "clean_step rooted out e =
     (if e = ''..'' then
        (if out \<noteq> [] \<and> last out \<noteq> ''..'' then butlast out
         else if rooted then out else out @ [''..''])
      else out @ [e])"

definition Clean :: "string \<Rightarrow> string" where
  "Clean path =
     (let rooted = (take 1 path = ''/'');
          elems = filter (\<lambda>e. e \<noteq> [] \<and> e \<noteq> ''.'') (Split path CHR ''/'');
          out = Join (foldl (clean_step rooted) [] elems) ''/''
      in if rooted then ''/'' @ out else if out = [] then ''.'' else out)"

text \<open>
  \<^verbatim>\<open>filepath.Join\<close> of two elements: they are joined by a separator from the first
  non-empty one on, and the result is cleaned; without a non-empty element it is empty.
\<close>

definition path_join :: "string \<Rightarrow> string \<Rightarrow> string" where
  "path_join dir name =
     (if dir \<noteq> [] then Clean (dir @ ''/'' @ name)
      else if name \<noteq> [] then Clean name else [])"

text \<open>A file name as a directory listing gives it: one path element, not \<open>.\<close> or \<open>..\<close>.\<close>

definition plain_name :: "string \<Rightarrow> bool" where
  "plain_name name = (name \<noteq> [] \<and> name \<noteq> ''.'' \<and> name \<noteq> ''..'' \<and> CHR ''/'' \<notin> set name)"

text \<open>
  \<^verbatim>\<open>filepath.Ext\<close>: scanning from the end, the suffix from the last dot of the last path
  element, empty when a separator comes first.
\<close>

fun ext_scan :: "string \<Rightarrow> string \<Rightarrow> string" where
  "ext_scan [] suffix = []"
| "ext_scan (c # before) suffix =
     (if c = CHR ''/'' then []
      else if c = CHR ''.'' then c # suffix
      else ext_scan before (c # suffix))"

definition Ext :: "string \<Rightarrow> string" where
  "Ext path = ext_scan (rev path) []"

text \<open>
  \<^verbatim>\<open>filepath.Dir\<close>: the path up to and including its last separator, cleaned.
\<close>

definition Dir :: "string \<Rightarrow> string" where
  "Dir path = Clean (rev (dropWhile (\<lambda>c. c \<noteq> CHR ''/'') (rev path)))"

section \<open>The worker pool\<close>

text \<open>
  \<open>exportEmails\<close> and \<open>importEmails\<close> run the same goroutines over the same two channels:
  the main goroutine sends every item to the buffered channel \<open>jobs\<close> and closes it;
  each worker ranges over \<open>jobs\<close>, calls the handler on the item it received and sends
  the outcome to the buffered channel \<open>results\<close>, and returns when \<open>jobs\<close> is closed and
  empty; one more goroutine, started after \<open>jobs\<close> is closed, waits for all workers and
  closes \<open>results\<close>; the main goroutine then ranges over \<open>results\<close> until it is closed
  and empty.

  This is modelled as a transition system. A state holds the items not yet sent, the
  contents of the two channels, where each worker stands, what the collecting loop has
  received so far, and the world. An event is one step of one goroutine; a step that
  would block in Go (receiving from an empty open channel, sending to a full one) is not
  enabled. A schedule is a list of events: the interleaving is whatever the schedule says.
  A handler call together with the send of its outcome is one step.
\<close>

text \<open>The outcome of one item: the item, and the error or the size the handler returned.\<close>

type_synonym jobResult = "string \<times> (error + int)"

type_synonym 'w handler = "string \<Rightarrow> 'w \<Rightarrow> (error + int) \<times> 'w"

datatype worker = Ranging | Handling string | Returned

record 'w pool =
  unsent :: "string list"
  jobs :: "string list"
  jobs_closed :: bool
  workers :: "worker list"
  results :: "jobResult list"
  results_closed :: bool
  received :: "jobResult list"
  collected :: bool
  pworld :: 'w

datatype event = SendJob | CloseJobs | Receive nat | Handle nat | CloseResults | Collect

text \<open>Both channels are made with capacity \<open>cap\<close>, the number of items.\<close>

fun step :: "'w handler \<Rightarrow> nat \<Rightarrow> event \<Rightarrow> 'w pool \<Rightarrow> 'w pool option" where
  "step h cap SendJob s =
     (case unsent s of
        [] \<Rightarrow> None
      | x # xs \<Rightarrow>
          if length (jobs s) < cap \<and> \<not> jobs_closed s
          then Some (s\<lparr>unsent := xs, jobs := jobs s @ [x]\<rparr>)
          else None)"
| "step h cap CloseJobs s =
     (if unsent s = [] \<and> \<not> jobs_closed s then Some (s\<lparr>jobs_closed := True\<rparr>) else None)"
| "step h cap (Receive i) s =
     (if i < length (workers s) \<and> workers s ! i = Ranging then
        (case jobs s of
           x # xs \<Rightarrow> Some (s\<lparr>jobs := xs, workers := (workers s)[i := Handling x]\<rparr>)
         | [] \<Rightarrow>
             if jobs_closed s then Some (s\<lparr>workers := (workers s)[i := Returned]\<rparr>)
             else None)
      else None)"
| "step h cap (Handle i) s =
     (if i < length (workers s) then
        (case workers s ! i of
           Handling x \<Rightarrow>
             if length (results s) < cap \<and> \<not> results_closed s then
               (case h x (pworld s) of
                  (out, w') \<Rightarrow>
                    Some (s\<lparr>workers := (workers s)[i := Ranging],
                            results := results s @ [(x, out)], pworld := w'\<rparr>))
             else None
         | _ \<Rightarrow> None)
      else None)"
| "step h cap CloseResults s =
     (if jobs_closed s \<and> \<not> results_closed s \<and> list_all (\<lambda>w. w = Returned) (workers s)
      then Some (s\<lparr>results_closed := True\<rparr>) else None)"
| "step h cap Collect s =
     (if jobs_closed s \<and> \<not> collected s then
        (case results s of
           r # rs \<Rightarrow> Some (s\<lparr>results := rs, received := received s @ [r]\<rparr>)
         | [] \<Rightarrow> if results_closed s then Some (s\<lparr>collected := True\<rparr>) else None)
      else None)"

fun run :: "'w handler \<Rightarrow> nat \<Rightarrow> event list \<Rightarrow> 'w pool \<Rightarrow> 'w pool option" where
  "run h cap [] s = Some s"
| "run h cap (e # es) s =
     (case step h cap e s of None \<Rightarrow> None | Some s' \<Rightarrow> run h cap es s')"

definition pool_init :: "string list \<Rightarrow> nat \<Rightarrow> 'w \<Rightarrow> 'w pool" where
  "pool_init items n w =
     \<lparr>unsent = items, jobs = [], jobs_closed = False, workers = replicate n Ranging,
      results = [], results_closed = False, received = [], collected = False, pworld = w\<rparr>"

text \<open>
  One run of the pool with \<open>n\<close> workers under a schedule: what the collecting loop
  received, in the order it received it, and the world afterwards. The value is
  \<^term>\<open>None\<close> when the schedule asks for a step that is not enabled or stops before the
  collecting loop has ended.
\<close>

definition pool_exec ::
  "'w handler \<Rightarrow> string list \<Rightarrow> nat \<Rightarrow> event list \<Rightarrow> 'w \<Rightarrow> (jobResult list \<times> 'w) option" where
  "pool_exec h items n sched w =
     (case run h (length items) sched (pool_init items n w) of
        None \<Rightarrow> None
      | Some s \<Rightarrow> if collected s then Some (received s, pworld s) else None)"

text \<open>
  The schedule in which everything happens in program order and worker 0 does all the
  work: every job is sent, \<open>jobs\<close> is closed, worker 0 receives and handles each job,
  every worker finds \<open>jobs\<close> closed, \<open>results\<close> is closed, and the results are collected.
\<close>

definition sequential_schedule :: "nat \<Rightarrow> nat \<Rightarrow> event list" where
  "sequential_schedule m n =
     replicate m SendJob @ [CloseJobs] @ concat (replicate m [Receive 0, Handle 0])
     @ map Receive [0..<n] @ [CloseResults] @ replicate (Suc m) Collect"

text \<open>The number of steps that remain in any run from a state.\<close>

fun worker_steps :: "worker \<Rightarrow> nat" where
  "worker_steps Ranging = 1"
| "worker_steps (Handling x) = 3"
| "worker_steps Returned = 0"

definition steps_left :: "'w pool \<Rightarrow> nat" where
  "steps_left s =
     4 * length (unsent s) + 3 * length (jobs s) + sum_list (map worker_steps (workers s))
     + length (results s) + (if jobs_closed s then 0 else 1)
     + (if results_closed s then 0 else 1) + (if collected s then 0 else 1)"

text \<open>The items that workers hold, and the invariant of the reachable states.\<close>

fun held :: "worker \<Rightarrow> string list" where
  "held (Handling x) = [x]"
| "held _ = []"

definition in_flight :: "'w pool \<Rightarrow> string multiset" where
  "in_flight s =
     mset (unsent s) + mset (jobs s) + mset (concat (map held (workers s)))
     + mset (map fst (results s)) + mset (map fst (received s))"

definition pool_inv :: "string list \<Rightarrow> nat \<Rightarrow> 'w pool \<Rightarrow> bool" where
  "pool_inv items n s =
     (in_flight s = mset items
      \<and> length (workers s) = n
      \<and> (jobs_closed s \<longrightarrow> unsent s = [])
      \<and> (Returned \<in> set (workers s) \<longrightarrow> jobs_closed s \<and> jobs s = [])
      \<and> (results_closed s \<longrightarrow> jobs_closed s \<and> list_all (\<lambda>w. w = Returned) (workers s))
      \<and> (collected s \<longrightarrow> results_closed s \<and> results s = []))"

section \<open>Package exporter\<close>

text \<open>The fields of the configuration that \<open>Export\<close> and the functions below it read.\<close>

record exporter_Config =
  OutputDir :: string
  OrganizeByLabels :: bool
  ParallelWorkers :: int
  Format :: string
  Limit :: int

record exporter_Failure =
  EmailID :: string
  Error :: string

record exporter_Result =
  TotalMatched :: int
  TotalExported :: int
  TotalFailed :: int
  TotalSize :: int
  Failures :: "exporter_Failure list"

subsection \<open>Exporting one message\<close>

definition getOutputPath :: "exporter_Config \<Rightarrow> env \<Rightarrow> message \<Rightarrow> world \<Rightarrow> (error + string) \<times> world" where
  "getOutputPath cfg E message w =
     (let filename = Id message @ ''.'' @ Format cfg in
      if \<not> OrganizeByLabels cfg then (Inr (path_join (OutputDir cfg) filename), w)
      else
        let labelDir = (case LabelIds message of [] \<Rightarrow> ''unlabeled'' | l # _ \<Rightarrow> l);
            outputDir = path_join (OutputDir cfg) labelDir
        in case MkdirAll E outputDir w of
             Inl err \<Rightarrow> (Inl (''failed to create label directory: '' @ err), w)
           | Inr w' \<Rightarrow> (Inr (path_join outputDir filename), w'))"

definition exportAsEML :: "env \<Rightarrow> message \<Rightarrow> string \<Rightarrow> world \<Rightarrow> (error + int) \<times> world" where
  "exportAsEML E message outputPath w =
     (let w1 = api (MessagesGet (Id message) ''raw'') w in
      case get_raw E (Id message) of
        Inl err \<Rightarrow> (Inl (''failed to get raw message: '' @ err), w1)
      | Inr raw \<Rightarrow>
          (case decodeBase64URL raw of
             Inl err \<Rightarrow> (Inl (''failed to decode raw message: '' @ err), w1)
           | Inr rawData \<Rightarrow>
               (case WriteFile E outputPath rawData w1 of
                  Inl err \<Rightarrow> (Inl (''failed to write EML file: '' @ err), w1)
                | Inr w2 \<Rightarrow> (Inr (int (length rawData)), w2))))"

definition exportAsJSON :: "env \<Rightarrow> message \<Rightarrow> string \<Rightarrow> world \<Rightarrow> (error + int) \<times> world" where
  "exportAsJSON E message outputPath w =
     (case marshal_message E message of
        Inl err \<Rightarrow> (Inl (''failed to marshal message to JSON: '' @ err), w)
      | Inr jsonData \<Rightarrow>
          (case WriteFile E outputPath jsonData w of
             Inl err \<Rightarrow> (Inl (''failed to write JSON file: '' @ err), w)
           | Inr w1 \<Rightarrow> (Inr (int (length jsonData)), w1)))"

definition exportAsMbox :: "env \<Rightarrow> message \<Rightarrow> string \<Rightarrow> world \<Rightarrow> (error + int) \<times> world" where
  "exportAsMbox E message outputPath w = exportAsEML E message outputPath w"

definition exportSingleEmail :: "exporter_Config \<Rightarrow> env \<Rightarrow> string \<Rightarrow> world \<Rightarrow> (error + int) \<times> world" where
  "exportSingleEmail cfg E messageID w =
     (let w1 = api (MessagesGet messageID ''full'') w in
      case get_full E messageID of
        Inl err \<Rightarrow> (Inl (''failed to get message: '' @ err), w1)
      | Inr message \<Rightarrow>
          (case getOutputPath cfg E message w1 of
             (Inl err, w2) \<Rightarrow> (Inl (''failed to determine output path: '' @ err), w2)
           | (Inr outputPath, w2) \<Rightarrow>
               if Format cfg = ''eml'' then exportAsEML E message outputPath w2
               else if Format cfg = ''json'' then exportAsJSON E message outputPath w2
               else if Format cfg = ''mbox'' then exportAsMbox E message outputPath w2
               else (Inl (''unsupported export format: '' @ Format cfg), w2)))"

subsection \<open>The batch\<close>

definition manifest_path :: "exporter_Config \<Rightarrow> string" where
  "manifest_path cfg = path_join (OutputDir cfg) ''processed_emails.json''"

definition saveProcessedEmailsFilter ::
  "exporter_Config \<Rightarrow> env \<Rightarrow> ProcessedEmail list \<Rightarrow> world \<Rightarrow> error option \<times> world" where
  "saveProcessedEmailsFilter cfg E processedEmails w =
     (case marshal_processed E processedEmails of
        Inl err \<Rightarrow> (Some (''failed to marshal processed emails: '' @ err), w)
      | Inr data \<Rightarrow>
          (case WriteFile E (manifest_path cfg) data w of
             Inl err \<Rightarrow> (Some (''failed to write filter file: '' @ err), w)
           | Inr w' \<Rightarrow> (None, w')))"

text \<open>
  The loop \<^verbatim>\<open>for exportRes := range results\<close>, over the outcomes in the order in which
  they are received: it touches only \<open>result\<close> and \<open>processedEmails\<close>.
\<close>

fun export_collect ::
  "jobResult list \<Rightarrow> exporter_Result \<times> ProcessedEmail list
     \<Rightarrow> exporter_Result \<times> ProcessedEmail list" where
  "export_collect [] acc = acc"
| "export_collect ((messageID, Inl err) # rest) (result, processedEmails) =
     export_collect rest
       (result\<lparr>TotalFailed := TotalFailed result + 1,
               Failures := Failures result @ [\<lparr>EmailID = messageID, Error = err\<rparr>]\<rparr>,
        processedEmails)"
| "export_collect ((messageID, Inr sz) # rest) (result, processedEmails) =
     export_collect rest
       (result\<lparr>TotalExported := TotalExported result + 1,
               TotalSize := TotalSize result + sz\<rparr>,
        processedEmails @ [\<lparr>ID = messageID, Size = sz\<rparr>])"

definition empty_Result :: exporter_Result where
  "empty_Result =
     \<lparr>TotalMatched = 0, TotalExported = 0, TotalFailed = 0, TotalSize = 0, Failures = []\<rparr>"

text \<open>
  \<open>exportEmails\<close> under a schedule of its goroutines. Its Go error is always \<^verbatim>\<open>nil\<close>; a
  failure to save the manifest is only logged.
\<close>

definition exportEmails ::
  "exporter_Config \<Rightarrow> env \<Rightarrow> string list \<Rightarrow> event list \<Rightarrow> world
     \<Rightarrow> (exporter_Result \<times> world) option" where
  "exportEmails cfg E messageIDs sched w =
     (let n = (if ParallelWorkers cfg \<le> 0 then 1 else nat (ParallelWorkers cfg)) in
      case pool_exec (exportSingleEmail cfg E) messageIDs n sched w of
        None \<Rightarrow> None
      | Some (outcomes, w1) \<Rightarrow>
          (case export_collect outcomes (empty_Result, []) of
             (result, processedEmails) \<Rightarrow>
               if length processedEmails > 0
               then Some (result, snd (saveProcessedEmailsFilter cfg E processedEmails w1))
               else Some (result, w1)))"

subsection \<open>Searching and the whole operation\<close>

text \<open>
  The loop of \<open>searchEmails\<close> follows the page tokens of the service for as long as the
  service hands them out: the value is \<^term>\<open>None\<close> when that never ends.
\<close>

partial_function (option) search_pages ::
  "env \<Rightarrow> string \<Rightarrow> string \<Rightarrow> string list \<Rightarrow> world \<Rightarrow> ((error + string list) \<times> world) option" where
  "search_pages E query pageToken messageIDs w =
     (let w1 = api (MessagesList query pageToken) w in
      case list_page E query pageToken of
        Inl err \<Rightarrow> Some (Inl (''failed to list messages: '' @ err), w1)
      | Inr (ids, nextPageToken) \<Rightarrow>
          if nextPageToken = [] then Some (Inr (messageIDs @ ids), w1)
          else search_pages E query nextPageToken (messageIDs @ ids) w1)"

definition searchEmails ::
  "timelib \<Rightarrow> env \<Rightarrow> filters_Config \<Rightarrow> world \<Rightarrow> ((error + string list) \<times> world) option" where
  "searchEmails L E filterConfig w = search_pages E (BuildGmailQuery L filterConfig) [] [] w"

definition apply_limit :: "int \<Rightarrow> 'a list \<Rightarrow> 'a list" where
  "apply_limit limit xs =
     (if limit > 0 \<and> int (length xs) > limit then take (nat limit) xs else xs)"

text \<open>\<^verbatim>\<open>metrics.Save\<close>: the metrics are marshalled and written; a failure is only logged.\<close>

definition save_metrics :: "env \<Rightarrow> string \<Rightarrow> int \<times> int \<times> int \<times> int \<Rightarrow> world \<Rightarrow> world" where
  "save_metrics E filename m w =
     (case marshal_metrics E m of
        Inl err \<Rightarrow> w
      | Inr data \<Rightarrow> (case WriteFile E filename data w of Inl err \<Rightarrow> w | Inr w' \<Rightarrow> w'))"

definition Export ::
  "timelib \<Rightarrow> exporter_Config \<Rightarrow> env \<Rightarrow> filters_Config \<Rightarrow> event list \<Rightarrow> world
     \<Rightarrow> ((error + exporter_Result) \<times> world) option" where
  "Export L cfg E filterConfig sched w =
     (case Validate filterConfig of
        Some err \<Rightarrow> Some (Inl (''invalid filter configuration: '' @ err), w)
      | None \<Rightarrow>
          (case MkdirAll E (OutputDir cfg) w of
             Inl err \<Rightarrow> Some (Inl (''failed to create output directory: '' @ err), w)
           | Inr w1 \<Rightarrow>
               (case searchEmails L E filterConfig w1 of
                  None \<Rightarrow> None
                | Some (Inl err, w2) \<Rightarrow> Some (Inl (''failed to search emails: '' @ err), w2)
                | Some (Inr found, w2) \<Rightarrow>
                    (let messageIDs = apply_limit (Limit cfg) found in
                     case exportEmails cfg E messageIDs sched w2 of
                       None \<Rightarrow> None
                     | Some (result0, w3) \<Rightarrow>
                         (let result = result0\<lparr>TotalMatched := int (length messageIDs)\<rparr>;
                              w4 = save_metrics E (path_join (OutputDir cfg) ''metrics.json'')
                                     (TotalMatched result, TotalExported result,
                                      TotalFailed result, TotalSize result) w3
                          in Some (Inr result, w4))))))"

section \<open>Package importer\<close>

record importer_Config =
  InputDir :: string
  ParallelWorkers :: int
  Limit :: int

record importer_Failure =
  FilePath :: string
  Error :: string

record importer_Result =
  TotalFound :: int
  TotalImported :: int
  TotalFailed :: int
  TotalSize :: int
  Failures :: "importer_Failure list"

subsection \<open>Finding the files\<close>

text \<open>
  What \<^verbatim>\<open>filepath.WalkDir\<close> sees: a file (anything that is not a directory), a directory
  with its entries in the order \<^verbatim>\<open>os.ReadDir\<close> lists them, or a directory whose listing
  fails with an error.
\<close>

datatype fsnode = File | Directory "(string \<times> fsnode) list" | Unlistable error

text \<open>The function passed to \<^verbatim>\<open>WalkDir\<close>; \<open>isDir\<close> is \<^verbatim>\<open>d.IsDir()\<close>.\<close>

definition walk_fn :: "string \<Rightarrow> bool \<Rightarrow> error option \<Rightarrow> string list \<Rightarrow> error + string list" where
  "walk_fn path isDir err emailFiles =
     (case err of
        Some e \<Rightarrow> Inl e
      | None \<Rightarrow>
          if isDir then Inr emailFiles
          else
            let ext = ToLower (Ext path)
            in if ext = ''.eml'' \<or> ext = ''.json'' \<or> ext = ''.mbox''
               then Inr (emailFiles @ [path]) else Inr emailFiles)"

text \<open>
  \<^verbatim>\<open>walkDir\<close> of package filepath: the function is called on the entry, then on each
  entry below it in order; after a failed listing it is called a second time with the
  error. The first error ends the walk.
\<close>

fun walkDir :: "string \<Rightarrow> fsnode \<Rightarrow> string list \<Rightarrow> error + string list"
  and walkEntries :: "string \<Rightarrow> (string \<times> fsnode) list \<Rightarrow> string list \<Rightarrow> error + string list" where
  "walkDir path File acc = walk_fn path False None acc"
| "walkDir path (Unlistable err) acc =
     (case walk_fn path True None acc of
        Inl e \<Rightarrow> Inl e
      | Inr acc' \<Rightarrow> walk_fn path True (Some err) acc')"
| "walkDir path (Directory entries) acc =
     (case walk_fn path True None acc of
        Inl e \<Rightarrow> Inl e
      | Inr acc' \<Rightarrow> walkEntries path entries acc')"
| "walkEntries path [] acc = Inr acc"
| "walkEntries path ((name, node) # rest) acc =
     (case walkDir (path_join path name) node acc of
        Inl e \<Rightarrow> Inl e
      | Inr acc' \<Rightarrow> walkEntries path rest acc')"

text \<open>
  \<^verbatim>\<open>WalkDir\<close> starts with \<^verbatim>\<open>os.Lstat\<close> of the root: \<open>tree\<close> is its error, or the tree found
  there.
\<close>

definition WalkDir :: "string \<Rightarrow> error + fsnode \<Rightarrow> error + string list" where
  "WalkDir path tree =
     (case tree of
        Inl err \<Rightarrow> walk_fn path False (Some err) []
      | Inr node \<Rightarrow> walkDir path node [])"

definition findEmailFiles :: "importer_Config \<Rightarrow> error + fsnode \<Rightarrow> error + string list" where
  "findEmailFiles cfg tree =
     (case WalkDir (InputDir cfg) tree of
        Inl err \<Rightarrow> Inl (''failed to walk directory: '' @ err)
      | Inr emailFiles \<Rightarrow> Inr emailFiles)"

subsection \<open>Importing one file\<close>

definition importEMLFile :: "env \<Rightarrow> string \<Rightarrow> world \<Rightarrow> (error + int) \<times> world" where
  "importEMLFile E data w =
     (let raw = encodeBase64URL data; w1 = api (MessagesImport raw) w in
      case import_message E raw of
        Some err \<Rightarrow> (Inl (''failed to import message: '' @ err), w1)
      | None \<Rightarrow> (Inr (int (length data)), w1))"

definition importJSONFile :: "env \<Rightarrow> string \<Rightarrow> world \<Rightarrow> (error + int) \<times> world" where
  "importJSONFile E data w =
     (case unmarshal_raw E data of
        Inl err \<Rightarrow> (Inl (''failed to parse JSON: '' @ err), w)
      | Inr raw \<Rightarrow>
          (let w1 = api (MessagesImport raw) w in
           case import_message E raw of
             Some err \<Rightarrow> (Inl (''failed to import message: '' @ err), w1)
           | None \<Rightarrow> (Inr (int (length data)), w1)))"

definition importMboxFile :: "env \<Rightarrow> string \<Rightarrow> world \<Rightarrow> (error + int) \<times> world" where
  "importMboxFile E data w =
     (let raw = encodeBase64URL data; w1 = api (MessagesImport raw) w in
      case import_message E raw of
        Some err \<Rightarrow> (Inl (''failed to import message: '' @ err), w1)
      | None \<Rightarrow> (Inr (int (length data)), w1))"

definition importSingleEmail :: "env \<Rightarrow> string \<Rightarrow> world \<Rightarrow> (error + int) \<times> world" where
  "importSingleEmail E filePath w =
     (case ReadFile filePath w of
        Inl err \<Rightarrow> (Inl (''failed to read file: '' @ err), w)
      | Inr data \<Rightarrow>
          (let ext = ToLower (Ext filePath) in
           if ext = ''.eml'' then importEMLFile E data w
           else if ext = ''.json'' then importJSONFile E data w
           else if ext = ''.mbox'' then importMboxFile E data w
           else (Inl (''unsupported file type: '' @ ext), w)))"

subsection \<open>The batch and the whole operation\<close>

fun import_collect :: "jobResult list \<Rightarrow> importer_Result \<Rightarrow> importer_Result" where
  "import_collect [] result = result"
| "import_collect ((filePath, Inl err) # rest) result =
     import_collect rest
       (result\<lparr>importer_Result.TotalFailed := importer_Result.TotalFailed result + 1,
               importer_Result.Failures := importer_Result.Failures result
                 @ [\<lparr>FilePath = filePath, importer_Failure.Error = err\<rparr>]\<rparr>)"
| "import_collect ((filePath, Inr sz) # rest) result =
     import_collect rest
       (result\<lparr>TotalImported := TotalImported result + 1,
               importer_Result.TotalSize := importer_Result.TotalSize result + sz\<rparr>)"

definition empty_import_Result :: importer_Result where
  "empty_import_Result =
     \<lparr>TotalFound = 0, TotalImported = 0, importer_Result.TotalFailed = 0,
      importer_Result.TotalSize = 0, importer_Result.Failures = []\<rparr>"

definition importEmails ::
  "importer_Config \<Rightarrow> env \<Rightarrow> string list \<Rightarrow> event list \<Rightarrow> world
     \<Rightarrow> (importer_Result \<times> world) option" where
  "importEmails cfg E emailFiles sched w =
     (let n = (if importer_Config.ParallelWorkers cfg \<le> 0 then 1
               else nat (importer_Config.ParallelWorkers cfg)) in
      case pool_exec (importSingleEmail E) emailFiles n sched w of
        None \<Rightarrow> None
      | Some (outcomes, w1) \<Rightarrow> Some (import_collect outcomes empty_import_Result, w1))"

definition Import ::
  "importer_Config \<Rightarrow> env \<Rightarrow> error + fsnode \<Rightarrow> event list \<Rightarrow> world
     \<Rightarrow> ((error + importer_Result) \<times> world) option" where
  "Import cfg E tree sched w =
     (case findEmailFiles cfg tree of
        Inl err \<Rightarrow> Some (Inl (''failed to find email files: '' @ err), w)
      | Inr found \<Rightarrow>
          (let emailFiles = apply_limit (importer_Config.Limit cfg) found in
           case importEmails cfg E emailFiles sched w of
             None \<Rightarrow> None
           | Some (result0, w1) \<Rightarrow>
               (let result = result0\<lparr>TotalFound := int (length emailFiles)\<rparr>;
                    w2 = save_metrics E (path_join (Dir (InputDir cfg)) ''import_metrics.json'')
                           (TotalFound result, TotalImported result,
                            importer_Result.TotalFailed result,
                            importer_Result.TotalSize result) w1
                in Some (Inr result, w2))))"




section \<open>Package cleaner\<close>

record cleaner_Config =
  Action :: string
  FilterFile :: string
  DryRun :: bool
  Limit :: int

record cleaner_Failure =
  EmailID :: string
  Error :: string

record cleaner_Result =
  TotalFound :: int
  TotalProcessed :: int
  TotalFailed :: int
  Action :: string
  DryRun :: bool
  Failures :: "cleaner_Failure list"

definition loadProcessedEmails :: "cleaner_Config \<Rightarrow> env \<Rightarrow> world \<Rightarrow> error + ProcessedEmail list" where
  "loadProcessedEmails cfg E w =
     (case ReadFile (FilterFile cfg) w of
        Inl err \<Rightarrow> Inl (''failed to read filter file: '' @ err)
      | Inr data \<Rightarrow>
          (case unmarshal_processed E data of
             Inl err \<Rightarrow> Inl (''failed to parse filter file: '' @ err)
           | Inr processedEmails \<Rightarrow> Inr processedEmails))"

definition archiveEmail :: "env \<Rightarrow> string \<Rightarrow> world \<Rightarrow> error option \<times> world" where
  "archiveEmail E emailID w =
     (let w1 = api (MessagesModify emailID [''INBOX'']) w in
      case modify_message E emailID [''INBOX''] of
        Some err \<Rightarrow> (Some (''failed to archive email: '' @ err), w1)
      | None \<Rightarrow> (None, w1))"

definition deleteEmail :: "env \<Rightarrow> string \<Rightarrow> world \<Rightarrow> error option \<times> world" where
  "deleteEmail E emailID w =
     (let w1 = api (MessagesDelete emailID) w in
      case delete_message E emailID of
        Some err \<Rightarrow> (Some (''failed to delete email: '' @ err), w1)
      | None \<Rightarrow> (None, w1))"

definition cleanupSingleEmail :: "cleaner_Config \<Rightarrow> env \<Rightarrow> string \<Rightarrow> world \<Rightarrow> error option \<times> world" where
  "cleanupSingleEmail cfg E emailID w =
     (if cleaner_Config.DryRun cfg then (None, w)
      else if cleaner_Config.Action cfg = ''archive'' then archiveEmail E emailID w
      else if cleaner_Config.Action cfg = ''delete'' then deleteEmail E emailID w
      else (Some (''unsupported action: '' @ cleaner_Config.Action cfg), w))"

text \<open>The loop of \<open>cleanupEmails\<close>, one record after the other; its Go error is always \<^verbatim>\<open>nil\<close>.\<close>

fun cleanup_loop ::
  "cleaner_Config \<Rightarrow> env \<Rightarrow> ProcessedEmail list \<Rightarrow> cleaner_Result \<Rightarrow> world
     \<Rightarrow> cleaner_Result \<times> world" where
  "cleanup_loop cfg E [] result w = (result, w)"
| "cleanup_loop cfg E (email # rest) result w =
     (case cleanupSingleEmail cfg E (ID email) w of
        (Some err, w') \<Rightarrow>
          cleanup_loop cfg E rest
            (result\<lparr>cleaner_Result.TotalFailed := cleaner_Result.TotalFailed result + 1,
                    cleaner_Result.Failures := cleaner_Result.Failures result
                      @ [\<lparr>cleaner_Failure.EmailID = ID email, cleaner_Failure.Error = err\<rparr>]\<rparr>) w'
      | (None, w') \<Rightarrow>
          cleanup_loop cfg E rest (result\<lparr>TotalProcessed := TotalProcessed result + 1\<rparr>) w')"

definition empty_cleanup_Result :: cleaner_Result where
  "empty_cleanup_Result =
     \<lparr>cleaner_Result.TotalFound = 0, TotalProcessed = 0, cleaner_Result.TotalFailed = 0,
      cleaner_Result.Action = [], cleaner_Result.DryRun = False, cleaner_Result.Failures = []\<rparr>"

definition cleanupEmails ::
  "cleaner_Config \<Rightarrow> env \<Rightarrow> ProcessedEmail list \<Rightarrow> world \<Rightarrow> cleaner_Result \<times> world" where
  "cleanupEmails cfg E processedEmails w = cleanup_loop cfg E processedEmails empty_cleanup_Result w"

definition Cleanup :: "cleaner_Config \<Rightarrow> env \<Rightarrow> world \<Rightarrow> (error + cleaner_Result) \<times> world" where
  "Cleanup cfg E w =
     (case loadProcessedEmails cfg E w of
        Inl err \<Rightarrow> (Inl (''failed to load processed emails: '' @ err), w)
      | Inr loaded \<Rightarrow>
          (let processedEmails = apply_limit (cleaner_Config.Limit cfg) loaded in
           case cleanupEmails cfg E processedEmails w of
             (result0, w1) \<Rightarrow>
               (let result = result0\<lparr>cleaner_Result.TotalFound := int (length processedEmails),
                                      cleaner_Result.Action := cleaner_Config.Action cfg,
                                      cleaner_Result.DryRun := cleaner_Config.DryRun cfg\<rparr>;
                    w2 = save_metrics E
                           (path_join (Dir (FilterFile cfg)) ''cleanup_metrics.json'')
                           (cleaner_Result.TotalFound result, TotalProcessed result,
                            cleaner_Result.TotalFailed result, 0) w1
                in (Inr result, w2))))"

text \<open>The calls of a log that change or remove a message.\<close>

fun modifies :: "api_call \<Rightarrow> bool" where
  "modifies (MessagesModify emailID labels) = True"
| "modifies (MessagesDelete emailID) = True"
| "modifies _ = False"

section \<open>Example values\<close>

text \<open>
  A mail service with three messages \<open>m1\<close>, \<open>m2\<close>, \<open>m3\<close> that match every query, each with
  the five-byte body \<open>hello\<close>; the raw form of \<open>m2\<close> cannot be fetched. Nothing in the file
  system fails. The manifest is marshalled as the identifiers, each followed by a
  semicolon, and unmarshalled from that form.
\<close>

fun split_records :: "string \<Rightarrow> string \<Rightarrow> ProcessedEmail list" where
  "split_records w [] = []"
| "split_records w (c # cs) =
     (if c = CHR '';'' then \<lparr>ID = w, Size = 5\<rparr> # split_records [] cs
      else split_records (w @ [c]) cs)"

definition example_env :: env where
  "example_env =
     \<lparr>list_page = (\<lambda>query pageToken. Inr ([''m1'', ''m2'', ''m3''], [])),
      get_full = (\<lambda>messageID. Inr \<lparr>Id = messageID, LabelIds = []\<rparr>),
      get_raw = (\<lambda>messageID. if messageID = ''m2'' then Inl ''not found'' else Inr ''aGVsbG8''),
      import_message = (\<lambda>raw. None),
      modify_message = (\<lambda>emailID labels. None),
      delete_message = (\<lambda>emailID. None),
      mkdir_fails = (\<lambda>path. None),
      write_fails = (\<lambda>path. None),
      marshal_message = (\<lambda>message. Inr (Id message)),
      marshal_processed =
        (\<lambda>processedEmails. Inr (concat (map (\<lambda>p. ID p @ '';'') processedEmails))),
      unmarshal_processed = (\<lambda>data. Inr (split_records [] data)),
      unmarshal_raw = (\<lambda>data. Inl ''unexpected end of JSON input''),
      marshal_metrics = (\<lambda>m. Inr ''{}'')\<rparr>"

definition example_config :: exporter_Config where
  "example_config =
     \<lparr>OutputDir = ''out'', OrganizeByLabels = False, exporter_Config.ParallelWorkers = 2,
      Format = ''eml'', exporter_Config.Limit = 0\<rparr>"

definition empty_world :: world where
  "empty_world = \<lparr>files = Map.empty, dirs = {}, calls = []\<rparr>"

text \<open>
  A schedule of three jobs on two workers in which the second job is finished and
  collected first, while the first job is still being handled.
\<close>

definition interleaved_schedule :: "event list" where
  "interleaved_schedule =
     [SendJob, Receive 0, SendJob, Receive 1, Handle 1, SendJob, CloseJobs, Collect,
      Receive 1, Handle 0, Handle 1, Receive 0, Receive 1, Collect, CloseResults,
      Collect, Collect]"




text \<open>A manifest of two records for the cleaner.\<close>

definition example_cleanup_config :: cleaner_Config where
  "example_cleanup_config =
     \<lparr>cleaner_Config.Action = ''delete'', FilterFile = ''out/processed_emails.json'',
      cleaner_Config.DryRun = True, cleaner_Config.Limit = 0\<rparr>"

definition example_cleanup_world :: world where
  "example_cleanup_world =
     \<lparr>files = [''out/processed_emails.json'' \<mapsto> ''m1;m3;''], dirs = {''out''}, calls = []\<rparr>"

section \<open>Properties of package filters\<close>

subsection \<open>Validate\<close>

text \<open>
  Claim C3, as stated: \<open>Validate\<close> fails exactly when both size bounds are set and the
  minimum is not below the maximum, or both dates are set and the after-date is later than
  the before-date, or a scope is set that is not one of all, inbox, sent, drafts, spam,
  trash. The code's list of scopes has \<open>all_mail\<close> where the statement has \<open>all\<close>: the scope
  \<open>all\<close> is rejected although the statement counts it as recognized.
\<close>

theorem Validate_scope_all_counterexample:
  "Validate (empty_filter\<lparr>SearchScope := ''all''\<rparr>) =
     Some ''invalid search scope: all (valid: all_mail, inbox, sent, drafts, spam, trash)''
   \<and> \<not> spec_Validate_fails (empty_filter\<lparr>SearchScope := ''all''\<rparr>)"
  by (simp add: Validate_def empty_filter_def validScopes_def spec_Validate_fails_def)

text \<open>
  Claim C3, amended: \<open>Validate\<close> returns an error exactly when both size bounds are set
  (positive) and the minimum is at least the maximum, or both dates are set and the
  after-date is later than the before-date, or the scope is non-empty and not one of
  all_mail, inbox, sent, drafts, spam, trash.
\<close>

theorem Validate_error_iff:
  "(Validate c \<noteq> None) =
     ((SizeGreaterThan c > 0 \<and> SizeLessThan c > 0 \<and> SizeGreaterThan c \<ge> SizeLessThan c)
      \<or> (\<exists>a b. DateAfter c = Some a \<and> DateBefore c = Some b \<and> a > b)
      \<or> (SearchScope c \<noteq> [] \<and>
          SearchScope c \<notin> set [''all_mail'', ''inbox'', ''sent'', ''drafts'', ''spam'', ''trash'']))"
  by (auto simp: Validate_def validScopes_def split: option.splits)

theorem Validate_error_iff_witness:
  "Validate (empty_filter\<lparr>SizeGreaterThan := 10485760, SizeLessThan := 5242880\<rparr>) \<noteq> None
   \<and> Validate (empty_filter\<lparr>SearchScope := ''all_mail''\<rparr>) = None"
  using Validate_error_iff [of "empty_filter\<lparr>SizeGreaterThan := 10485760, SizeLessThan := 5242880\<rparr>"]
    Validate_error_iff [of "empty_filter\<lparr>SearchScope := ''all_mail''\<rparr>"]
  by (simp add: empty_filter_def)

subsection \<open>The subject clause\<close>

text \<open>
  Claim C5, as stated: the subject clause is parenthesized when the subject contains white
  space and is emitted without parentheses otherwise. For the subject \<open>Invoice\<close> the code
  emits \<open>subject:(Invoice)\<close>, and the clause \<open>subject:Invoice\<close> is not part of the query.
\<close>

theorem subject_clause_counterexample:
  "BuildGmailQuery no_dates (empty_filter\<lparr>Subject := ''Invoice''\<rparr>) = ''subject:(Invoice)''
   \<and> \<not> contains_space ''Invoice''
   \<and> spec_subject_clause ''Invoice'' = ''subject:Invoice''
   \<and> spec_subject_clause ''Invoice''
       \<notin> set (query_parts no_dates (empty_filter\<lparr>Subject := ''Invoice''\<rparr>))"
  by (simp add: BuildGmailQuery_def query_parts_def empty_filter_def excluded_parts_def
      label_parts_def spec_subject_clause_def space_len_def unicode_spaces_def)

lemma Join_Cons: "Join (x # ys) sep = x @ (if ys = [] then [] else sep @ Join ys sep)"
  by (cases ys) simp_all

lemma Join_append_Cons:
  "Join (xs @ x # ys) sep = concat (map (\<lambda>y. y @ sep) xs) @ Join (x # ys) sep"
  by (induction xs) (simp_all add: Join_Cons)

lemma Join_clause:
  "Join (xs @ [x] @ ys) sep =
     concat (map (\<lambda>y. y @ sep) xs) @ x @ (if ys = [] then [] else sep @ Join ys sep)"
  by (simp add: Join_append_Cons Join_Cons)

text \<open>
  Claim C5, amended: for every filter whose subject is non-empty, the query returned has
  the clause \<open>subject:(\<close>subject\<open>)\<close>, with the parentheses whether or not the subject
  contains white space. The clause stands after the recipient and sender clauses, when
  there are any, and ends the query or is followed by a space and the remaining clauses;
  when the subject is the only field set, the clause is the whole query.
\<close>

theorem subject_clause_parenthesized:
  "Subject c \<noteq> [] \<Longrightarrow>
     (\<exists>post. BuildGmailQuery L c =
               (if To c \<noteq> [] then ''to:'' @ To c @ '' '' else [])
               @ (if From c \<noteq> [] then ''from:'' @ From c @ '' '' else [])
               @ ''subject:('' @ Subject c @ '')'' @ post
             \<and> (post = [] \<or> hd post = CHR '' ''))
     \<and> ''subject:('' @ Subject c @ '')'' \<in> set (query_parts L c)
     \<and> BuildGmailQuery L (empty_filter\<lparr>Subject := Subject c\<rparr>) = ''subject:('' @ Subject c @ '')''"
proof (intro conjI)
  assume s: "Subject c \<noteq> []"
  define before where "before =
     (if To c \<noteq> [] then [''to:'' @ To c] else []) @
     (if From c \<noteq> [] then [''from:'' @ From c] else [])"
  define rest where "rest =
     (if IncludesWords c \<noteq> [] then [IncludesWords c] else []) @
     excluded_parts (ExcludesWords c) @
     (if SizeGreaterThan c > 0 then [''size:'' @ itoa (SizeGreaterThan c)] else []) @
     (if SizeLessThan c > 0 then [''-size:'' @ itoa (SizeLessThan c)] else []) @
     (if DateWithin c > 0
      then [''newer_than:'' @ itoa (whole_days L (DateWithin c)) @ ''d''] else []) @
     (case DateAfter c of None \<Rightarrow> [] | Some t \<Rightarrow> [''after:'' @ time_Format L t]) @
     (case DateBefore c of None \<Rightarrow> [] | Some t \<Rightarrow> [''before:'' @ time_Format L t]) @
     (case HasAttachment c of None \<Rightarrow> []
        | Some b \<Rightarrow> (if b then [''has:attachment''] else [''-has:attachment''])) @
     (if ExcludeChats c then [''-in:chats''] else []) @
     label_parts (Labels c) @
     (if SearchScope c \<noteq> [] \<and> SearchScope c \<noteq> ''all_mail''
      then [''in:'' @ SearchScope c] else [])"
  define post where "post = (if rest = [] then [] else '' '' @ Join rest '' '')"
  have parts: "query_parts L c = before @ [''subject:('' @ Subject c @ '')''] @ rest"
    using s by (simp add: query_parts_def before_def rest_def)
  have pre: "concat (map (\<lambda>y. y @ '' '') before) =
               (if To c \<noteq> [] then ''to:'' @ To c @ '' '' else [])
               @ (if From c \<noteq> [] then ''from:'' @ From c @ '' '' else [])"
    by (simp add: before_def)
  have "BuildGmailQuery L c =
          concat (map (\<lambda>y. y @ '' '') before) @ (''subject:('' @ Subject c @ '')'') @ post"
    unfolding BuildGmailQuery_def parts post_def by (rule Join_clause)
  then have "BuildGmailQuery L c =
               (if To c \<noteq> [] then ''to:'' @ To c @ '' '' else [])
               @ (if From c \<noteq> [] then ''from:'' @ From c @ '' '' else [])
               @ ''subject:('' @ Subject c @ '')'' @ post"
    by (simp only: pre append_assoc)
  moreover have "post = [] \<or> hd post = CHR '' ''" by (simp add: post_def)
  ultimately show "\<exists>post. BuildGmailQuery L c =
               (if To c \<noteq> [] then ''to:'' @ To c @ '' '' else [])
               @ (if From c \<noteq> [] then ''from:'' @ From c @ '' '' else [])
               @ ''subject:('' @ Subject c @ '')'' @ post
             \<and> (post = [] \<or> hd post = CHR '' '')"
    by blast
  show "''subject:('' @ Subject c @ '')'' \<in> set (query_parts L c)"
    by (simp only: parts set_append list.set(2) Un_iff insertI1 simp_thms)
  show "BuildGmailQuery L (empty_filter\<lparr>Subject := Subject c\<rparr>) = ''subject:('' @ Subject c @ '')''"
    using s by (simp add: query_parts_def BuildGmailQuery_def empty_filter_def excluded_parts_def
      label_parts_def)
qed

theorem subject_clause_parenthesized_witness:
  "(\<exists>post. BuildGmailQuery no_dates
              (empty_filter\<lparr>Subject := ''Important Meeting'', To := ''a@b.c'', ExcludeChats := True\<rparr>)
            = ''to:a@b.c subject:(Important Meeting)'' @ post
          \<and> (post = [] \<or> hd post = CHR '' ''))
   \<and> ''subject:(Invoice)'' \<in> set (query_parts no_dates (empty_filter\<lparr>Subject := ''Invoice''\<rparr>))
   \<and> BuildGmailQuery no_dates (empty_filter\<lparr>Subject := ''Invoice''\<rparr>) = ''subject:(Invoice)''"
  using subject_clause_parenthesized
          [of "empty_filter\<lparr>Subject := ''Important Meeting'', To := ''a@b.c'', ExcludeChats := True\<rparr>"
              no_dates]
        subject_clause_parenthesized [of "empty_filter\<lparr>Subject := ''Invoice''\<rparr>" no_dates]
  by (simp add: empty_filter_def)

subsection \<open>ParseSize\<close>

lemma upper_char_cases:
  "upper_char c = c \<or>
   (c, upper_char c) \<in> set (zip ''abcdefghijklmnopqrstuvwxyz'' ''ABCDEFGHIJKLMNOPQRSTUVWXYZ'')"
  unfolding upper_char_def
  by (cases "map_of (zip ''abcdefghijklmnopqrstuvwxyz'' ''ABCDEFGHIJKLMNOPQRSTUVWXYZ'') c")
     (simp_all only: option.case map_of_SomeD simp_thms)

lemma upper_char_unit_cases:
  assumes "upper_char c \<in> set ''BKMGT''" shows "c \<in> set ''BKMGTbkmgt''"
proof -
  from upper_char_cases [of c] show ?thesis
  proof
    assume "upper_char c = c" with assms show ?thesis by auto
  next
    assume "(c, upper_char c) \<in> set (zip ''abcdefghijklmnopqrstuvwxyz'' ''ABCDEFGHIJKLMNOPQRSTUVWXYZ'')"
    then have "(c, upper_char c) \<in> set (filter (\<lambda>p. snd p \<in> set ''BKMGT'') (zip ''abcdefghijklmnopqrstuvwxyz'' ''ABCDEFGHIJKLMNOPQRSTUVWXYZ''))"
      using assms by (simp only: set_filter mem_Collect_eq snd_conv simp_thms)
    then show ?thesis by auto
  qed
qed

lemma upper_char_other:
  assumes "c \<notin> set ''abcdefghijklmnopqrstuvwxyz''" shows "upper_char c = c"
proof -
  have eq: "set ''abcdefghijklmnopqrstuvwxyz'' =
        fst ` set (zip ''abcdefghijklmnopqrstuvwxyz'' ''ABCDEFGHIJKLMNOPQRSTUVWXYZ'')"
    by (subst set_map [symmetric], subst map_fst_zip) simp_all
  have "c \<notin> fst ` set (zip ''abcdefghijklmnopqrstuvwxyz'' ''ABCDEFGHIJKLMNOPQRSTUVWXYZ'')"
    using assms unfolding eq .
  then have "map_of (zip ''abcdefghijklmnopqrstuvwxyz'' ''ABCDEFGHIJKLMNOPQRSTUVWXYZ'') c = None"
    by (rule map_of_eq_None_iff [THEN iffD2])
  then show ?thesis unfolding upper_char_def by (simp only: option.case)
qed

lemma digit_not_lower: "c \<in> set ''0123456789'' \<Longrightarrow> c \<notin> set ''abcdefghijklmnopqrstuvwxyz''"
  by auto

lemma upper_char_digit: "c \<in> set ''0123456789'' \<Longrightarrow> upper_char c = c"
  by (rule upper_char_other) (rule digit_not_lower)

lemma space_len_0:
  assumes "s \<noteq> []" "[] \<notin> set seqs" "hd s \<notin> hd ` set seqs"
  shows "space_len seqs s = 0"
proof -
  have "\<not> (\<exists>sp. sp \<in> set seqs \<and> take (length sp) s = sp)"
  proof
    assume "\<exists>sp. sp \<in> set seqs \<and> take (length sp) s = sp"
    then obtain sp where sp: "sp \<in> set seqs" "take (length sp) s = sp" by blast
    with assms(2) have "sp \<noteq> []" by blast
    then have "hd (take (length sp) s) = hd s" using assms(1) by (cases sp; cases s) simp_all
    with sp have "hd s \<in> hd ` set seqs" by (metis imageI)
    with assms(3) show False by blast
  qed
  then have "find (\<lambda>sp. take (length sp) s = sp) seqs = None"
    unfolding find_None_iff by blast
  then show ?thesis by (simp add: space_len_def)
qed

lemma trim_left_id: "s = [] \<or> space_len seqs s = 0 \<Longrightarrow> trim_left seqs 0 s = s"
  by (cases s) auto

lemma unicode_spaces_nonempty: "[] \<notin> set unicode_spaces"
  by (simp add: unicode_spaces_def)

lemma TrimSpace_id:
  assumes "s = [] \<or> (hd s \<notin> hd ` set unicode_spaces \<and> last s \<notin> last ` set unicode_spaces)"
  shows "TrimSpace s = s"
proof (cases "s = []")
  case True
  then show ?thesis by (simp add: TrimSpace_def)
next
  case False
  with assms have h: "hd s \<notin> hd ` set unicode_spaces" and l: "last s \<notin> last ` set unicode_spaces"
    by blast+
  have 1: "trim_left unicode_spaces 0 s = s"
    using False h by (intro trim_left_id disjI2 space_len_0 unicode_spaces_nonempty)
  have r: "rev s \<noteq> []" using False by simp
  have e: "[] \<notin> set (map rev unicode_spaces)"
    using unicode_spaces_nonempty by (simp add: image_iff)
  have "hd ` set (map rev unicode_spaces) = last ` set unicode_spaces"
    using unicode_spaces_nonempty
    by (simp only: set_map image_image) (intro image_cong refl, metis hd_rev)
  with l False have hr: "hd (rev s) \<notin> hd ` set (map rev unicode_spaces)"
    by (simp add: hd_rev)
  have 2: "trim_left (map rev unicode_spaces) 0 (rev s) = rev s"
    using r e hr by (intro trim_left_id disjI2 space_len_0)
  show ?thesis by (simp only: TrimSpace_def 1 2 rev_rev_ident)
qed

lemma digit_size_char: "c \<in> set ''0123456789'' \<Longrightarrow> c \<in> set ''0123456789BKMGTbkmgt''"
  by auto

lemma unit_size_char: "c \<in> set ''BKMGTbkmgt'' \<Longrightarrow> c \<in> set ''0123456789BKMGTbkmgt''"
  by auto

lemma size_char_not_space:
  "c \<in> set ''0123456789BKMGTbkmgt''
     \<Longrightarrow> c \<notin> hd ` set unicode_spaces \<and> c \<notin> last ` set unicode_spaces"
  by (auto simp: unicode_spaces_def)

lemma dec_value_digits_no_dot:
  "\<forall>c \<in> set ds. c \<in> set ''0123456789'' \<Longrightarrow> takeWhile (\<lambda>c. c \<noteq> CHR ''.'') ds = ds"
  by (induction ds) auto

lemma bit_length_le: "n < 2 ^ j \<Longrightarrow> bit_length n \<le> j"
proof (induction j arbitrary: n)
  case 0
  then show ?case by simp
next
  case (Suc j)
  show ?case
  proof (cases "n = 0")
    case True
    then show ?thesis by simp
  next
    case False
    from Suc.prems have "n div 2 < 2 ^ j" by simp
    then have "bit_length (n div 2) \<le> j" by (rule Suc.IH)
    with False show ?thesis by (subst bit_length.simps) simp
  qed
qed

lemma round_half_even_1: "round_half_even a (Suc 0) = a"
  by (simp add: round_half_even_def)

lemma round_float64_integer:
  assumes "n < 2 ^ 53"
  shows "\<exists>k. round_float64 n 1 = (n * 2 ^ k, - int k)"
proof (cases "n = 0")
  case True
  then have "round_float64 n 1 = (n * 2 ^ 0, - int 0)" by (simp add: round_float64_def)
  then show ?thesis by blast
next
  case False
  have "bit_length n \<le> 53" using assms by (rule bit_length_le)
  moreover have "bit_length 1 = 1" by simp
  ultimately have fl: "floor_log2 n 1 \<le> 52"
    by (simp add: floor_log2_def Let_def del: bit_length.simps)
  define t where "t = max (floor_log2 n 1 - 52) (- 1074)"
  have t: "t \<le> 0" using fl by (simp add: t_def)
  have "round_float64 n 1 = (if t \<le> 0 then round_half_even (n * 2 ^ nat (- t)) 1
                             else round_half_even n (1 * 2 ^ nat t), t)"
    using False by (simp only: round_float64_def Let_def t_def if_False)
  also have "\<dots> = (n * 2 ^ nat (- t), - int (nat (- t)))"
    using t by (simp add: round_half_even_1)
  finally show ?thesis by blast
qed

lemma ParseFloat_digits:
  assumes "ds \<noteq> []" "\<forall>c \<in> set ds. c \<in> set ''0123456789''" "dec_value ds < 2 ^ 53"
  shows "\<exists>k. ParseFloat ds = Inr (dec_value ds * 2 ^ k, - int k)"
proof -
  have t: "takeWhile (\<lambda>c. c \<noteq> CHR ''.'') ds = ds"
    using assms(2) by (rule dec_value_digits_no_dot)
  have d: "dropWhile (\<lambda>c. c \<noteq> CHR ''.'') ds = []"
    using assms(2) by (induction ds) auto
  from round_float64_integer [OF assms(3)]
  obtain k where k: "round_float64 (dec_value ds) (Suc 0) = (dec_value ds * 2 ^ k, - int k)"
    unfolding One_nat_def by blast
  have "\<not> (0 \<le> - int k \<and> (2::nat) ^ 1024 \<le> dec_value ds * 2 ^ k * 2 ^ nat (- int k))"
  proof (cases "k = 0")
    case True
    have "(2::nat) ^ 53 \<le> 2 ^ 1024" by simp
    with assms(3) have "dec_value ds < 2 ^ 1024" by linarith
    with True show ?thesis by simp
  next
    case False
    then show ?thesis by simp
  qed
  then have "ParseFloat ds = Inr (dec_value ds * 2 ^ k, - int k)"
    using assms(1) by (simp add: ParseFloat_def t d Let_def k)
  then show ?thesis by blast
qed

lemma float_to_int64_integer:
  assumes "int n * m < 2 ^ 63"
  shows "float_to_int64 (n * 2 ^ k, - int k) m = int n * m"
proof (cases "k = 0")
  case True
  then show ?thesis using assms by (simp add: float_to_int64_def)
next
  case False
  have "int (n * 2 ^ k) * m div 2 ^ k = int n * m"
    by (simp add: mult.commute mult.left_commute)
  then show ?thesis using assms False by (simp add: float_to_int64_def Let_def)
qed

lemma digit_isNumChar: "c \<in> set ''0123456789'' \<Longrightarrow> isNumChar c"
  by (auto simp: isNumChar_def)

lemma scan_digits_unit:
  assumes "\<forall>c \<in> set ds. c \<in> set ''0123456789''" "U = [] \<or> \<not> isNumChar (hd U)"
  shows "takeWhile isNumChar (ds @ U) = ds" and "dropWhile isNumChar (ds @ U) = U"
proof -
  have n: "\<forall>c \<in> set ds. isNumChar c" using assms(1) digit_isNumChar by blast
  show "takeWhile isNumChar (ds @ U) = ds"
    using n assms(2) by (cases U) (auto simp: takeWhile_append2)
  show "dropWhile isNumChar (ds @ U) = U"
    using n assms(2) by (cases U) (auto simp: dropWhile_append2)
qed

lemma size_multiplier_Some:
  "size_multiplier U = Some m \<Longrightarrow>
     (U, m) \<in> set [([], 1), (''B'', 1), (''KB'', 1024), (''MB'', 1048576),
                    (''GB'', 1073741824), (''TB'', 1099511627776)]"
  by (auto simp: size_multiplier_def split: if_splits)

lemma ParseSize_digits_unit:
  assumes ds: "ds \<noteq> []" "\<forall>c \<in> set ds. c \<in> set ''0123456789''"
    and m: "size_multiplier (ToUpper u) = Some m"
    and small: "dec_value ds < 2 ^ 53" "int (dec_value ds) * m < 2 ^ 63"
  shows "ParseSize (ds @ u) = Inr (int (dec_value ds) * m)
    \<and> m \<in> {1, 1024, 1024 ^ 2, 1024 ^ 3, 1024 ^ 4}"
proof -
  let ?U = "ToUpper u"
  from size_multiplier_Some [OF m]
  have U: "?U \<in> set [[], ''B'', ''KB'', ''MB'', ''GB'', ''TB'']" and mm: "m \<in> {1, 1024, 1024 ^ 2, 1024 ^ 3, 1024 ^ 4}"
    by auto
  have uc: "\<forall>c \<in> set u. upper_char c \<in> set ''BKMGT''"
  proof
    fix c assume "c \<in> set u"
    then have "upper_char c \<in> set ?U" by (simp add: ToUpper_def)
    with U show "upper_char c \<in> set ''BKMGT''" by auto
  qed
  then have u: "\<forall>c \<in> set u. c \<in> set ''BKMGTbkmgt''"
    using upper_char_unit_cases by blast
  have all: "\<forall>c \<in> set (ds @ u). c \<in> set ''0123456789BKMGTbkmgt''"
  proof
    fix c assume "c \<in> set (ds @ u)"
    then have "c \<in> set ds \<or> c \<in> set u" by simp
    then show "c \<in> set ''0123456789BKMGTbkmgt''"
      using ds(2) u digit_size_char unit_size_char by blast
  qed
  have ne: "ds @ u \<noteq> []" using ds(1) by simp
  have "hd (ds @ u) \<in> set (ds @ u)" "last (ds @ u) \<in> set (ds @ u)"
    using ne by (rule hd_in_set, rule last_in_set)
  with all have "hd (ds @ u) \<in> set ''0123456789BKMGTbkmgt''"
    "last (ds @ u) \<in> set ''0123456789BKMGTbkmgt''" by blast+
  then have trim: "TrimSpace (ds @ u) = ds @ u"
    by (intro TrimSpace_id disjI2 conjI) (blast dest: size_char_not_space)+
  have up: "ToUpper (ds @ u) = ds @ ?U"
    using ds(2) by (simp add: ToUpper_def upper_char_digit cong: map_cong)
  have hdU: "?U = [] \<or> \<not> isNumChar (hd ?U)"
    using U by (auto simp: isNumChar_def)
  note scan = scan_digits_unit [OF ds(2) hdU]
  from ParseFloat_digits [OF ds small(1)]
  obtain k where k: "ParseFloat ds = Inr (dec_value ds * 2 ^ k, - int k)" by blast
  have fl: "float_to_int64 (dec_value ds * 2 ^ k, - int k) m = int (dec_value ds) * m"
    using small(2) by (rule float_to_int64_integer)
  show ?thesis
    using ds(1) mm
    by (simp add: ParseSize_def trim up scan k m fl)
qed

lemma takeWhile_all_eq: "\<forall>c \<in> set s. c = d \<Longrightarrow> takeWhile (\<lambda>c. c \<noteq> d) s = []"
  by (cases s) auto

lemma all_eq_mem: "\<forall>c \<in> set s. c = d \<Longrightarrow> s = [] \<or> d \<in> set s"
  by (cases s) auto

lemma ParseFloat_syntax:
  assumes "(\<forall>c \<in> set s. c = CHR ''.'') \<or> 1 < length (filter (\<lambda>c. c = CHR ''.'') s)"
  shows "isl (ParseFloat s)"
proof (cases "dropWhile (\<lambda>c. c \<noteq> CHR ''.'') s")
  case Nil
  then have nodot: "\<forall>c \<in> set s. c \<noteq> CHR ''.''"
    by (simp add: dropWhile_eq_Nil_conv)
  then have "filter (\<lambda>c. c = CHR ''.'') s = []"
    by (simp add: filter_empty_conv)
  with assms nodot have "s = []" by (cases s) auto
  then show ?thesis by (simp add: ParseFloat_def)
next
  case (Cons d fp)
  have d: "d = CHR ''.''"
    using hd_dropWhile [of "\<lambda>c. c \<noteq> CHR ''.''" s] Cons by auto
  let ?ip = "takeWhile (\<lambda>c. c \<noteq> CHR ''.'') s"
  have fp: "set fp \<subseteq> set s"
    using set_dropWhileD [of _ "\<lambda>c. c \<noteq> CHR ''.''" s] Cons by auto
  have ip: "filter (\<lambda>c. c = CHR ''.'') ?ip = []"
    by (auto simp: filter_empty_conv dest: set_takeWhileD)
  have "?ip @ fp = [] \<or> CHR ''.'' \<in> set fp"
    using assms
  proof
    assume all: "\<forall>c \<in> set s. c = CHR ''.''"
    have "?ip = []" using all by (rule takeWhile_all_eq)
    moreover have "\<forall>c \<in> set fp. c = CHR ''.''" using fp all by blast
    then have "fp = [] \<or> CHR ''.'' \<in> set fp" by (rule all_eq_mem)
    ultimately show ?thesis by blast
  next
    assume "1 < length (filter (\<lambda>c. c = CHR ''.'') s)"
    moreover have "filter (\<lambda>c. c = CHR ''.'') s =
        filter (\<lambda>c. c = CHR ''.'') ?ip @ filter (\<lambda>c. c = CHR ''.'') (d # fp)"
      by (simp only: Cons [symmetric] filter_append [symmetric] takeWhile_dropWhile_id)
    ultimately have "filter (\<lambda>c. c = CHR ''.'') fp \<noteq> []"
      using ip d by (cases "filter (\<lambda>c. c = CHR ''.'') fp") simp_all
    then show ?thesis by (auto simp: filter_empty_conv)
  qed
  then show ?thesis using Cons by (auto simp: ParseFloat_def Let_def)
qed

lemma ParseSize_rejects:
  assumes "sizeStr = ToUpper (TrimSpace s)"
    and "(\<forall>c \<in> set (takeWhile isNumChar sizeStr). c = CHR ''.'')
         \<or> 1 < length (filter (\<lambda>c. c = CHR ''.'') (takeWhile isNumChar sizeStr))
         \<or> dropWhile isNumChar sizeStr \<notin> set [[], ''B'', ''KB'', ''MB'', ''GB'', ''TB'']"
  shows "isl (ParseSize s)"
proof -
  let ?n = "takeWhile isNumChar sizeStr" and ?u = "dropWhile isNumChar sizeStr"
  have "isl (ParseFloat ?n) \<or> size_multiplier ?u = None"
    using assms(2) ParseFloat_syntax [of ?n]
    by (auto simp: size_multiplier_def)
  then show ?thesis
    unfolding ParseSize_def assms(1) [symmetric] Let_def
    by (auto split: sum.splits option.splits)
qed

lemma size_multiplier_table:
  "(U, m) \<in> set [([], 1), (''B'', 1), (''KB'', 1024), (''MB'', 1024 ^ 2),
                  (''GB'', 1024 ^ 3), (''TB'', 1024 ^ 4)]
   \<Longrightarrow> size_multiplier U = Some m"
  by (auto simp: size_multiplier_def)

lemma ParseSize_examples:
  "ParseSize (''5MB'' @ [CHR 0xC2, CHR 0xA0]) = Inr 5242880"
  "ParseSize '' 12kb '' = Inr 12288"
  "ParseSize ''1.5KB'' = Inr 1536"
  "ParseSize ''0.1KB'' = Inr 102"
  "ParseSize ''9007199254740993'' = Inr 9007199254740992"
  "ParseSize ''9223372036854775807'' = Inr (- 9223372036854775808)"
  "isl (ParseSize ''12 kb'')"
  by (simp add: ParseSize_def ToUpper_def TrimSpace_def unicode_spaces_def space_len_def
        upper_char_def isNumChar_def,
      simp add: ParseFloat_def dec_value_def digit_val_def Let_def,
      simp add: round_float64_def round_half_even_def floor_log2_def Let_def size_multiplier_def
        float_to_int64_def)+

text \<open>
  Claim C6: \<open>ParseSize\<close> reads \<open>5MB\<close> as 5242880 and \<open>1024\<close> as 1024 and fails on
  \<open>bogus\<close>; a string of digits followed by one of the units B, KB, MB, GB, TB in
  either case (or by no unit) is the number times 1, 1024, \<open>1024^2\<close>, \<open>1024^3\<close>, \<open>1024^4\<close>; and
  every input fails whose numeric prefix (the leading digits and dots of the trimmed,
  upper-cased input) has no digit or more than one dot, or whose remainder is not one of
  the units. The number is bounded by \<open>2^53\<close>, below which every integer is a \<^verbatim>\<open>float64\<close>,
  and the product by \<open>2^63\<close>, below which it is an \<^verbatim>\<open>int64\<close>.
\<close>

theorem ParseSize_spec:
  "ParseSize ''5MB'' = Inr 5242880
   \<and> ParseSize ''5mb'' = Inr 5242880
   \<and> ParseSize ''1024'' = Inr 1024
   \<and> isl (ParseSize ''bogus'')
   \<and> (\<forall>ds u m. ds \<noteq> [] \<and> (\<forall>c \<in> set ds. c \<in> set ''0123456789'')
         \<and> (ToUpper u, m) \<in> set [([], 1), (''B'', 1), (''KB'', 1024), (''MB'', 1024 ^ 2),
                                   (''GB'', 1024 ^ 3), (''TB'', 1024 ^ 4)]
         \<and> dec_value ds < 2 ^ 53 \<and> int (dec_value ds) * m < 2 ^ 63
         \<longrightarrow> ParseSize (ds @ u) = Inr (int (dec_value ds) * m))
   \<and> (\<forall>s. (\<forall>c \<in> set (takeWhile isNumChar (ToUpper (TrimSpace s))). c = CHR ''.'')
         \<or> 1 < length (filter (\<lambda>c. c = CHR ''.'') (takeWhile isNumChar (ToUpper (TrimSpace s))))
         \<or> dropWhile isNumChar (ToUpper (TrimSpace s))
              \<notin> set [[], ''B'', ''KB'', ''MB'', ''GB'', ''TB'']
         \<longrightarrow> isl (ParseSize s))"
proof (intro conjI allI impI)
  show "ParseSize ''5MB'' = Inr 5242880"
    apply (simp add: ParseSize_def ToUpper_def TrimSpace_def unicode_spaces_def space_len_def
        upper_char_def isNumChar_def)
    apply (simp add: ParseFloat_def dec_value_def digit_val_def Let_def)
    apply (simp add: round_float64_def round_half_even_def floor_log2_def Let_def
        size_multiplier_def float_to_int64_def)
    done
  show "ParseSize ''5mb'' = Inr 5242880"
    apply (simp add: ParseSize_def ToUpper_def TrimSpace_def unicode_spaces_def space_len_def
        upper_char_def isNumChar_def)
    apply (simp add: ParseFloat_def dec_value_def digit_val_def Let_def)
    apply (simp add: round_float64_def round_half_even_def floor_log2_def Let_def
        size_multiplier_def float_to_int64_def)
    done
  show "ParseSize ''1024'' = Inr 1024"
    apply (simp add: ParseSize_def ToUpper_def TrimSpace_def unicode_spaces_def space_len_def
        upper_char_def isNumChar_def)
    apply (simp add: ParseFloat_def dec_value_def digit_val_def Let_def)
    apply (simp add: round_float64_def round_half_even_def floor_log2_def Let_def
        size_multiplier_def float_to_int64_def)
    done
  show "isl (ParseSize ''bogus'')"
    by (simp add: ParseSize_def ToUpper_def TrimSpace_def unicode_spaces_def space_len_def
        upper_char_def isNumChar_def)
next
  fix ds u m
  assume h: "ds \<noteq> [] \<and> (\<forall>c \<in> set ds. c \<in> set ''0123456789'')
         \<and> (ToUpper u, m) \<in> set [([], 1), (''B'', 1), (''KB'', 1024), (''MB'', 1024 ^ 2),
                                   (''GB'', 1024 ^ 3), (''TB'', 1024 ^ 4)]
         \<and> dec_value ds < 2 ^ 53 \<and> int (dec_value ds) * m < 2 ^ 63"
  then have m: "size_multiplier (ToUpper u) = Some m"
    by (intro size_multiplier_table) (elim conjE)
  from h have "ds \<noteq> []" "\<forall>c \<in> set ds. c \<in> set ''0123456789''"
    "dec_value ds < 2 ^ 53" "int (dec_value ds) * m < 2 ^ 63" by blast+
  from ParseSize_digits_unit [OF this(1,2) m this(3,4)]
  show "ParseSize (ds @ u) = Inr (int (dec_value ds) * m)" by (rule conjunct1)
next
  fix s
  assume "(\<forall>c \<in> set (takeWhile isNumChar (ToUpper (TrimSpace s))). c = CHR ''.'')
         \<or> 1 < length (filter (\<lambda>c. c = CHR ''.'') (takeWhile isNumChar (ToUpper (TrimSpace s))))
         \<or> dropWhile isNumChar (ToUpper (TrimSpace s))
              \<notin> set [[], ''B'', ''KB'', ''MB'', ''GB'', ''TB'']"
  then show "isl (ParseSize s)" by (rule ParseSize_rejects [OF refl])
qed

theorem ParseSize_spec_witness:
  "ParseSize ''500kb'' = Inr 512000 \<and> isl (ParseSize ''1.2.3MB'') \<and> isl (ParseSize ''5XB'')"
proof -
  note spec = ParseSize_spec [THEN conjunct2, THEN conjunct2, THEN conjunct2, THEN conjunct2]
  have "ParseSize (''500'' @ ''kb'') = Inr (int (dec_value ''500'') * 1024)"
    by (rule spec [THEN conjunct1, rule_format])
       (simp add: ToUpper_def upper_char_def dec_value_def digit_val_def)
  moreover have "isl (ParseSize ''1.2.3MB'')"
    by (rule spec [THEN conjunct2, rule_format])
       (simp add: ToUpper_def TrimSpace_def unicode_spaces_def space_len_def upper_char_def
          isNumChar_def)
  moreover have "isl (ParseSize ''5XB'')"
    by (rule spec [THEN conjunct2, rule_format])
       (simp add: ToUpper_def TrimSpace_def unicode_spaces_def space_len_def upper_char_def
          isNumChar_def)
  ultimately show ?thesis by (simp add: dec_value_def digit_val_def)
qed

section \<open>Properties of the base64 functions\<close>

lemma index_of_nth:
  "distinct xs \<Longrightarrow> i < length xs \<Longrightarrow> index_of xs (xs ! i) = Some i"
proof (induction xs arbitrary: i)
  case Nil
  then show ?case by simp
next
  case (Cons y ys)
  show ?case
  proof (cases i)
    case 0
    then show ?thesis by simp
  next
    case (Suc j)
    with Cons.prems have "j < length ys" "ys ! j \<in> set ys" "y \<notin> set ys" "distinct ys"
      by auto
    with Cons.IH [of j] Suc show ?thesis by auto
  qed
qed

lemma length_encodeStd: "length encodeStd = 64"
  by (simp add: encodeStd_def)

lemma length_encodeURL: "length encodeURL = 64"
  by (simp add: encodeURL_def)

lemma distinct_encodeStd: "distinct encodeStd"
  by (simp add: encodeStd_def)

lemma index_of_encodeStd: "i < 64 \<Longrightarrow> index_of encodeStd (encodeStd ! i) = Some i"
  by (rule index_of_nth [OF distinct_encodeStd]) (simp add: length_encodeStd)

lemma encodeStd_plain:
  "i < 64 \<Longrightarrow> encodeStd ! i \<notin> set [CHR 0x0D, CHR 0x0A, CHR ''='']"
proof -
  assume "i < 64"
  then have "encodeStd ! i \<in> set encodeStd" by (simp add: length_encodeStd)
  moreover have "set encodeStd \<inter> set [CHR 0x0D, CHR 0x0A, CHR ''=''] = {}"
    by (simp add: encodeStd_def)
  ultimately show ?thesis by blast
qed

lemma encodeURL_no_pad: "i < 64 \<Longrightarrow> encodeURL ! i \<noteq> CHR ''=''"
proof -
  assume "i < 64"
  then have "encodeURL ! i \<in> set encodeURL" by (simp add: length_encodeURL)
  moreover have "CHR ''='' \<notin> set encodeURL"
    by (simp add: encodeURL_def)
  ultimately show ?thesis by metis
qed

lemma ReplaceAll_to_std:
  "ReplaceAll (ReplaceAll s CHR ''-'' CHR ''+'') CHR ''_'' CHR ''/'' = map to_std s"
  by (simp add: ReplaceAll_def to_std_def)

lemma to_std_encodeURL: "i < 64 \<Longrightarrow> to_std (encodeURL ! i) = encodeStd ! i"
proof -
  assume i: "i < 64"
  have "map to_std encodeURL = encodeStd"
    by (simp add: encodeURL_def encodeStd_def to_std_def)
  then have "map to_std encodeURL ! i = encodeStd ! i" by simp
  then show ?thesis using i by (simp add: length_encodeURL)
qed

lemma to_std_pad: "to_std CHR ''='' = CHR ''=''"
  by (simp add: to_std_def)

lemma sextets_recombine:
  fixes v :: nat
  assumes "v < 16777216"
  shows "v div 262144 mod 64 * 262144 + v div 4096 mod 64 * 4096 + v div 64 mod 64 * 64
           + v mod 64 = v"
proof -
  define A B C D X Y where "A = v div 262144" and "B = v div 4096 mod 64"
    and "C = v div 64 mod 64" and "D = v mod 64" and "X = v div 64" and "Y = v div 4096"
  have a: "v div 262144 mod 64 = A" using assms by (simp add: A_def)
  have e3: "v = X * 64 + D" by (simp add: X_def D_def)
  have "X div 64 = Y" by (simp add: X_def Y_def div_mult2_eq [symmetric])
  then have e2: "X = Y * 64 + C"
    using div_mult_mod_eq [of X 64] by (simp add: C_def X_def)
  have "Y div 64 = A" by (simp add: A_def Y_def div_mult2_eq [symmetric])
  then have e1: "Y = A * 64 + B"
    using div_mult_mod_eq [of Y 64] by (simp add: B_def Y_def)
  have "A * 262144 + B * 4096 + C * 64 + D = v"
    using e1 e2 e3 by linarith
  then show ?thesis by (simp only: a B_def [symmetric] C_def [symmetric] D_def [symmetric])
qed


lemma char_of_byte: "n mod 256 = of_char c \<Longrightarrow> char_of (n::nat) = c"
  by (metis char_of_char char_of_mod_256)

lemma byte_hi: 
  fixes A B C :: nat
  assumes "B < 256" "C < 256"
  shows "(A * 65536 + B * 256 + C) div 65536 = A"
proof -
  have "B * 256 + C < 65536" using assms by linarith
  then have "(B * 256 + C) div 65536 = 0" by simp
  moreover have "(A * 65536 + B * 256 + C) div 65536 = ((B * 256 + C) + A * 65536) div 65536"
    by (rule arg_cong [where f = "\<lambda>x. x div 65536"]) simp
  moreover have "((B * 256 + C) + A * 65536) div 65536 = A + (B * 256 + C) div 65536"
    by (rule div_mult_self1) simp
  ultimately show ?thesis by linarith
qed
lemma byte_mid: 
  fixes A B C :: nat
  assumes "B < 256" "C < 256"
  shows "(A * 65536 + B * 256 + C) div 256 mod 256 = B"
proof -
  have "(A * 65536 + B * 256 + C) div 256 = (C + (A * 256 + B) * 256) div 256"
    by (rule arg_cong [where f = "\<lambda>x. x div 256"]) simp
  also have "\<dots> = (A * 256 + B) + C div 256" by (rule div_mult_self1) simp
  also have "\<dots> = B + A * 256" using assms by simp
  finally have "(A * 65536 + B * 256 + C) div 256 mod 256 = (B + A * 256) mod 256" by simp
  also have "\<dots> = B mod 256" by (rule mod_mult_self1)
  also have "\<dots> = B" using assms by simp
  finally show ?thesis .
qed
lemma byte_lo: 
  fixes A B C :: nat
  assumes "C < 256"
  shows "(A * 65536 + B * 256 + C) mod 256 = C"
proof -
  have "(A * 65536 + B * 256 + C) mod 256 = (C + (A * 256 + B) * 256) mod 256"
    by (rule arg_cong [where f = "\<lambda>x. x mod 256"]) simp
  also have "\<dots> = C mod 256" by (rule mod_mult_self1)
  also have "\<dots> = C" using assms by simp
  finally show ?thesis .
qed

lemma bytes_recombine:
  fixes a b c :: char
  defines "v \<equiv> (of_char a :: nat) * 65536 + of_char b * 256 + of_char c"
  shows "char_of (v div 65536) = a" "char_of (v div 256) = b" "char_of v = c"
    and "v < 16777216"
proof -
  have A: "(of_char a :: nat) < 256" and B: "(of_char b :: nat) < 256"
    and C: "(of_char c :: nat) < 256" by simp_all
  have "v div 65536 = of_char a" unfolding v_def using B C by (rule byte_hi)
  then show "char_of (v div 65536) = a" by simp
  have "v div 256 mod 256 = of_char b" unfolding v_def using B C by (rule byte_mid)
  then show "char_of (v div 256) = b" by (rule char_of_byte)
  have "v mod 256 = of_char c" unfolding v_def using C by (rule byte_lo)
  then show "char_of v = c" by (rule char_of_byte)
  show "v < 16777216" using A B C unfolding v_def by linarith
qed

lemma add_padding_quad:
  "add_padding (w # x # y # z # E) = w # x # y # z # add_padding E"
proof -
  have "length (w # x # y # z # E) = length E + 4" by simp
  then have "length (w # x # y # z # E) mod 4 = (length E + 4) mod 4" by (simp only:)
  also have "\<dots> = length E mod 4" by (rule mod_add_self2)
  finally show ?thesis by (simp add: add_padding_def del: length_Cons)
qed

lemma decode_quad:
  assumes "s0 < 64" "s1 < 64" "s2 < 64" "s3 < 64"
  shows "decodeBase64URL
           (encodeURL ! s0 # encodeURL ! s1 # encodeURL ! s2 # encodeURL ! s3 # E) =
         (case decodeBase64URL E of
            Inl err \<Rightarrow> Inl err
          | Inr out \<Rightarrow>
              Inr ([char_of ((s0 * 262144 + s1 * 4096 + s2 * 64 + s3) div 65536),
                    char_of ((s0 * 262144 + s1 * 4096 + s2 * 64 + s3) div 256),
                    char_of (s0 * 262144 + s1 * 4096 + s2 * 64 + s3)] @ out))"
  using assms encodeStd_plain [of s0] encodeStd_plain [of s1] encodeStd_plain [of s2]
    encodeStd_plain [of s3]
  by (simp add: decodeBase64URL_def add_padding_quad ReplaceAll_to_std DecodeString_def
      to_std_encodeURL index_of_encodeStd Let_def)


lemma index_of_None: "x \<notin> set xs \<Longrightarrow> index_of xs x = None"
  by (induction xs) auto

lemma index_of_pad: "index_of encodeStd CHR ''='' = None"
  by (rule index_of_None) (simp add: encodeStd_def)

lemma decode_pair:
  assumes "s0 < 64" "s1 < 64"
  shows "decodeBase64URL [encodeURL ! s0, encodeURL ! s1] =
           Inr [char_of ((s0 * 262144 + s1 * 4096) div 65536)]"
  using assms encodeStd_plain [of s0] encodeStd_plain [of s1]
  by (simp add: decodeBase64URL_def add_padding_def ReplaceAll_to_std DecodeString_def
      to_std_encodeURL to_std_pad index_of_encodeStd index_of_pad Let_def)

lemma decode_triple:
  assumes "s0 < 64" "s1 < 64" "s2 < 64"
  shows "decodeBase64URL [encodeURL ! s0, encodeURL ! s1, encodeURL ! s2] =
           Inr [char_of ((s0 * 262144 + s1 * 4096 + s2 * 64) div 65536),
                char_of ((s0 * 262144 + s1 * 4096 + s2 * 64) div 256)]"
  using assms encodeStd_plain [of s0] encodeStd_plain [of s1] encodeStd_plain [of s2]
  by (simp add: decodeBase64URL_def add_padding_def ReplaceAll_to_std DecodeString_def
      to_std_encodeURL to_std_pad index_of_encodeStd index_of_pad Let_def)

lemma TrimRight_append:
  assumes "xs \<noteq> []" "last xs \<noteq> c"
  shows "TrimRight (xs @ ys) c = xs @ TrimRight ys c"
proof -
  have keep: "dropWhile (\<lambda>x. x = c) (rev xs) = rev xs"
    using assms by (cases "rev xs") (auto simp: last_rev dest: arg_cong [where f = hd])
  show ?thesis
    using keep by (simp add: TrimRight_def dropWhile_append)
qed

lemma encode_quad:
  "encodeBase64URL (a # b # c # rest) =
     (let val = (of_char a :: nat) * 65536 + of_char b * 256 + of_char c
      in [encodeURL ! (val div 262144 mod 64), encodeURL ! (val div 4096 mod 64),
          encodeURL ! (val div 64 mod 64), encodeURL ! (val mod 64)])
     @ encodeBase64URL rest"
  unfolding encodeBase64URL_def EncodeToString.simps Let_def
  by (rule TrimRight_append) (simp_all add: encodeURL_no_pad)

lemma encode_pair:
  "encodeBase64URL [a, b] =
     (let val = (of_char a :: nat) * 65536 + of_char b * 256
      in [encodeURL ! (val div 262144 mod 64), encodeURL ! (val div 4096 mod 64),
          encodeURL ! (val div 64 mod 64)])"
  by (simp add: encodeBase64URL_def TrimRight_def Let_def encodeURL_no_pad)

lemma encode_single:
  "encodeBase64URL [a] =
     (let val = (of_char a :: nat) * 65536
      in [encodeURL ! (val div 262144 mod 64), encodeURL ! (val div 4096 mod 64)])"
  by (simp add: encodeBase64URL_def TrimRight_def Let_def encodeURL_no_pad)

lemma bytes3_induct:
  assumes "P []" "\<And>a. P [a]" "\<And>a b. P [a, b]"
    and "\<And>a b c rest. P rest \<Longrightarrow> P (a # b # c # rest)"
  shows "P (d :: string)"
  using assms by (rule_tac EncodeToString.induct [where P = "\<lambda>_. P"]) auto


lemma low_bits_pair: "((A::nat) * 65536 + B * 256) mod 64 = 0"
proof -
  have "A * 65536 + B * 256 = (A * 1024 + B * 4) * 64" by simp
  then show ?thesis by (simp only: mod_mult_self2_is_0)
qed

text \<open>
  Claim C8: for every byte sequence \<open>d\<close>, the exporter's decoder applied to the
  importer's encoding of \<open>d\<close> succeeds and returns \<open>d\<close>.
\<close>

theorem base64url_roundtrip: "decodeBase64URL (encodeBase64URL d) = Inr d"
proof (induction d rule: bytes3_induct)
  case 1
  show ?case
    by (simp add: encodeBase64URL_def decodeBase64URL_def TrimRight_def add_padding_def
        ReplaceAll_def DecodeString_def)
next
  case (2 a)
  define v where "v = (of_char a :: nat) * 65536 + of_char (CHR 0x00) * 256 + of_char (CHR 0x00)"
  have v: "of_char a * 65536 = v" by (simp add: v_def)
  note r = bytes_recombine [of a "CHR 0x00" "CHR 0x00", folded v_def]
  let ?s0 = "v div 262144 mod 64" and ?s1 = "v div 4096 mod 64"
  have "v mod 64 = 0" using low_bits_pair [of "of_char a" 0] by (simp add: v)
  moreover have "v div 64 mod 64 = 0"
  proof -
    have "v = (of_char a * 1024) * 64" by (simp add: v [symmetric])
    then have "v div 64 = of_char a * 1024" by (simp only: nonzero_mult_div_cancel_right)
    also have "\<dots> = (of_char a * 16) * 64" by simp
    finally show ?thesis by (simp only: mod_mult_self2_is_0)
  qed
  ultimately have z: "v div 64 mod 64 = 0" "v mod 64 = 0" by simp_all
  have eq: "?s0 * 262144 + ?s1 * 4096 = v"
    using sextets_recombine [OF r(4)] by (simp only: z mult_zero_left add_0_right)
  have e: "encodeBase64URL [a] = [encodeURL ! ?s0, encodeURL ! ?s1]"
    by (simp only: encode_single Let_def v)
  have "decodeBase64URL [encodeURL ! ?s0, encodeURL ! ?s1] =
          Inr [char_of ((?s0 * 262144 + ?s1 * 4096) div 65536)]"
    by (rule decode_pair) simp_all
  then show ?case by (simp only: e eq r(1))
next
  case (3 a b)
  define v where "v = (of_char a :: nat) * 65536 + of_char b * 256 + of_char (CHR 0x00)"
  have v: "of_char a * 65536 + of_char b * 256 = v" by (simp add: v_def)
  note r = bytes_recombine [of a b "CHR 0x00", folded v_def]
  let ?s0 = "v div 262144 mod 64" and ?s1 = "v div 4096 mod 64" and ?s2 = "v div 64 mod 64"
  have z: "v mod 64 = 0" unfolding v [symmetric] by (rule low_bits_pair)
  have eq: "?s0 * 262144 + ?s1 * 4096 + ?s2 * 64 = v"
    using sextets_recombine [OF r(4)] by (simp only: z add_0_right)
  have e: "encodeBase64URL [a, b] = [encodeURL ! ?s0, encodeURL ! ?s1, encodeURL ! ?s2]"
    by (simp only: encode_pair Let_def v)
  have "decodeBase64URL [encodeURL ! ?s0, encodeURL ! ?s1, encodeURL ! ?s2] =
          Inr [char_of ((?s0 * 262144 + ?s1 * 4096 + ?s2 * 64) div 65536),
               char_of ((?s0 * 262144 + ?s1 * 4096 + ?s2 * 64) div 256)]"
    by (rule decode_triple) simp_all
  then show ?case by (simp only: e eq r(1,2))
next
  case (4 a b c rest)
  define v where "v = (of_char a :: nat) * 65536 + of_char b * 256 + of_char c"
  note r = bytes_recombine [of a b c, folded v_def]
  let ?s0 = "v div 262144 mod 64" and ?s1 = "v div 4096 mod 64" and ?s2 = "v div 64 mod 64"
    and ?s3 = "v mod 64"
  note eq = sextets_recombine [OF r(4)]
  have e: "encodeBase64URL (a # b # c # rest) =
      encodeURL ! ?s0 # encodeURL ! ?s1 # encodeURL ! ?s2 # encodeURL ! ?s3
        # encodeBase64URL rest"
    by (simp only: encode_quad Let_def v_def [symmetric] append.simps)
  have "decodeBase64URL (encodeURL ! ?s0 # encodeURL ! ?s1 # encodeURL ! ?s2 # encodeURL ! ?s3
          # encodeBase64URL rest) =
        (case decodeBase64URL (encodeBase64URL rest) of
            Inl err \<Rightarrow> Inl err
          | Inr out \<Rightarrow>
              Inr ([char_of ((?s0 * 262144 + ?s1 * 4096 + ?s2 * 64 + ?s3) div 65536),
                    char_of ((?s0 * 262144 + ?s1 * 4096 + ?s2 * 64 + ?s3) div 256),
                    char_of (?s0 * 262144 + ?s1 * 4096 + ?s2 * 64 + ?s3)] @ out))"
    by (rule decode_quad) simp_all
  then show ?case by (simp only: e eq r(1,2,3) "4.IH" sum.case append.simps)
qed

text \<open>The encoder on the inputs of the repository's own test, and the decoder on them.\<close>

lemma encodeBase64URL_examples:
  "encodeBase64URL ''hello world'' = ''aGVsbG8gd29ybGQ''"
  "encodeBase64URL [] = []"
  "encodeBase64URL [CHR 0x00, CHR 0x01, CHR 0x02, CHR 0x03] = ''AAECAw''"
  by (simp_all add: encodeBase64URL_def encodeURL_def TrimRight_def)

lemma decodeBase64URL_examples:
  "decodeBase64URL ''aGVsbG8gd29ybGQ'' = Inr ''hello world''"
  "decodeBase64URL ''_-8'' = Inr [CHR 0xFF, CHR 0xEF]"
  "decodeBase64URL ''A'' = Inl corrupt"
  by (simp_all add: decodeBase64URL_def add_padding_def ReplaceAll_def DecodeString_def
      encodeStd_def char_of_def bit_Suc_0_iff corrupt_def)

section \<open>Properties of the paths\<close>

lemmas path_eval = path_join_def Clean_def Split_def clean_step_def Dir_def

lemma clean_examples:
  "Clean '''' = ''.''"
  "Clean ''a//b/./c/..'' = ''a/b''"
  "Clean ''/../a/b/../../..'' = ''/''"
  "Clean ''../../a/../../b/'' = ''../../../b''"
  "Clean ''./'' = ''.''"
  "Clean ''a/..'' = ''.''"
  "path_join ''out'' ''m1.eml'' = ''out/m1.eml''"
  "path_join ''in/'' ''a.eml'' = ''in/a.eml''"
  "path_join ''.'' ''a.eml'' = ''a.eml''"
  "path_join '''' ''a.eml'' = ''a.eml''"
  "path_join ''/'' ''a.eml'' = ''/a.eml''"
  "path_join ''out'' ''../x.eml'' = ''x.eml''"
  "path_join '''' '''' = ''''"
  "path_join ''a'' '''' = ''a''"
  "Dir ''out/processed_emails.json'' = ''out''"
  "Dir ''processed_emails.json'' = ''.''"
  "Dir ''/x'' = ''/''"
  "Dir ''a/b/'' = ''a/b''"
  "Dir ''in'' = ''.''"
  by (simp_all add: path_eval)

lemma split_from_nosep: "sep \<notin> set name \<Longrightarrow> split_from sep w name = [w @ name]"
  by (induction name arbitrary: w) auto

lemma split_from_append:
  "sep \<notin> set name \<Longrightarrow> split_from sep w (xs @ sep # name) = split_from sep w xs @ [name]"
  by (induction xs arbitrary: w) (simp_all add: split_from_nosep)

lemma Join_snoc:
  "Join (xs @ [x]) sep = concat (map (\<lambda>y. y @ sep) xs) @ x"
  by (induction xs) (simp_all add: Join_Cons)

lemma concat_sep_last:
  "concat (map (\<lambda>y. y @ [s]) xs) = [] \<or> last (concat (map (\<lambda>y. y @ [s]) xs)) = s"
  by (induction xs rule: rev_induct) simp_all

lemma Clean_plain_last:
  assumes "plain_name name" "path = name \<or> path = d @ CHR ''/'' # name"
  shows "\<exists>pre. Clean path = pre @ name \<and> (pre = [] \<or> last pre = CHR ''/'')"
proof -
  from assms(1) have n: "name \<noteq> []" "name \<noteq> ''.''" "name \<noteq> ''..''" "CHR ''/'' \<notin> set name"
    by (simp_all add: plain_name_def)
  have "\<exists>es. Split path CHR ''/'' = es @ [name]"
    using assms(2)
  proof
    assume "path = name"
    then have "Split path CHR ''/'' = [] @ [name]"
      using n(4) by (simp add: Split_def split_from_nosep)
    then show ?thesis by blast
  next
    assume "path = d @ CHR ''/'' # name"
    then have "Split path CHR ''/'' = split_from CHR ''/'' [] d @ [name]"
      using n(4) by (simp add: Split_def split_from_append)
    then show ?thesis by blast
  qed
  then obtain es where es: "Split path CHR ''/'' = es @ [name]" by blast
  define rooted where "rooted = (take 1 path = ''/'')"
  define S where "S = foldl (clean_step rooted) [] (filter (\<lambda>e. e \<noteq> [] \<and> e \<noteq> ''.'') es)"
  have f: "foldl (clean_step rooted) [] (filter (\<lambda>e. e \<noteq> [] \<and> e \<noteq> ''.'') (Split path CHR ''/''))
             = S @ [name]"
    using n by (simp add: es S_def clean_step_def)
  define P where "P = concat (map (\<lambda>y. y @ ''/'') S)"
  have j: "Join (S @ [name]) ''/'' = P @ name" unfolding P_def by (rule Join_snoc)
  have P: "P = [] \<or> last P = CHR ''/''" unfolding P_def by (rule concat_sep_last)
  have ne: "P @ name \<noteq> []" using n(1) by simp
  have "Clean path = (if rooted then ''/'' @ P @ name else P @ name)"
    unfolding Clean_def Let_def rooted_def [symmetric] f j using n(1) by simp
  then have "Clean path = (if rooted then ''/'' @ P else P) @ name" by simp
  moreover have "(if rooted then ''/'' @ P else P) = [] \<or> last (if rooted then ''/'' @ P else P) = CHR ''/''"
    using P by auto
  ultimately show ?thesis by blast
qed

lemma last_element:
  assumes "pre = [] \<or> last pre = CHR ''/''" "CHR ''/'' \<notin> set name"
  shows "rev (takeWhile (\<lambda>c. c \<noteq> CHR ''/'') (rev (pre @ name))) = name"
proof -
  have "takeWhile (\<lambda>c. c \<noteq> CHR ''/'') (rev pre) = []"
  proof (cases "pre = []")
    case True
    then show ?thesis by simp
  next
    case False
    with assms(1) have "last pre = CHR ''/''" by blast
    with False have "hd (rev pre) = CHR ''/''" "rev pre \<noteq> []" by (simp_all add: hd_rev)
    then show ?thesis by (cases "rev pre") simp_all
  qed
  moreover have "takeWhile (\<lambda>c. c \<noteq> CHR ''/'') (rev name @ rev pre) =
      rev name @ takeWhile (\<lambda>c. c \<noteq> CHR ''/'') (rev pre)"
    by (rule takeWhile_append2) (use assms(2) in auto)
  ultimately show ?thesis by simp
qed

lemma path_join_last:
  assumes "plain_name name"
  shows "rev (takeWhile (\<lambda>c. c \<noteq> CHR ''/'') (rev (path_join dir name))) = name"
proof -
  from assms have n: "name \<noteq> []" "CHR ''/'' \<notin> set name" by (simp_all add: plain_name_def)
  have "\<exists>pre. path_join dir name = pre @ name \<and> (pre = [] \<or> last pre = CHR ''/'')"
  proof (cases "dir = []")
    case True
    then have "path_join dir name = Clean name" using n by (simp add: path_join_def)
    with Clean_plain_last [OF assms, of name] show ?thesis by simp
  next
    case False
    then have "path_join dir name = Clean (dir @ CHR ''/'' # name)" by (simp add: path_join_def)
    with Clean_plain_last [OF assms, of "dir @ CHR ''/'' # name" dir] show ?thesis by simp
  qed
  then obtain pre where "path_join dir name = pre @ name" "pre = [] \<or> last pre = CHR ''/''"
    by blast
  with last_element [OF this(2) n(2)] show ?thesis by simp
qed

lemma path_join_inject:
  assumes "plain_name a" "plain_name b" "path_join dir a = path_join dir' b"
  shows "a = b"
  using path_join_last [OF assms(1), of dir] path_join_last [OF assms(2), of dir'] assms(3)
  by simp

section \<open>Properties of the worker pool\<close>

text \<open>
  The invariant holds initially and every step keeps it; a run that reaches the end of the
  collecting loop has received exactly the items that were submitted, provided there is at
  least one worker. Every step uses up one unit of \<open>steps_left\<close>, and in every reachable
  state short of the end some step is enabled: under any scheduler the pool neither
  deadlocks nor runs forever.
\<close>

lemma held_update:
  "i < length ws \<Longrightarrow>
     mset (concat (map held (ws[i := w']))) + mset (held (ws ! i)) =
     mset (concat (map held ws)) + mset (held w')"
proof (induction ws arbitrary: i)
  case Nil
  then show ?case by simp
next
  case (Cons a ws)
  show ?case
  proof (cases i)
    case 0
    then show ?thesis by simp
  next
    case (Suc j)
    with Cons.prems have "j < length ws" by simp
    from Cons.IH [OF this] Suc show ?thesis by (simp add: ac_simps)
  qed
qed

lemma worker_steps_update:
  "i < length ws \<Longrightarrow>
     sum_list (map worker_steps (ws[i := w'])) + worker_steps (ws ! i) =
     sum_list (map worker_steps ws) + worker_steps w'"
proof (induction ws arbitrary: i)
  case Nil
  then show ?case by simp
next
  case (Cons a ws)
  show ?case
  proof (cases i)
    case 0
    then show ?thesis by simp
  next
    case (Suc j)
    with Cons.prems have "j < length ws" by simp
    from Cons.IH [OF this] Suc show ?thesis by simp
  qed
qed

lemma Returned_update:
  "Returned \<in> set (ws[i := w']) \<Longrightarrow> w' \<noteq> Returned \<Longrightarrow> Returned \<in> set ws"
  using set_update_subset_insert [of ws i w'] by auto

lemma not_all_Returned:
  "i < length ws \<Longrightarrow> ws ! i \<noteq> Returned \<Longrightarrow> \<not> list_all (\<lambda>w. w = Returned) ws"
  by (auto simp: list_all_iff dest: nth_mem)

lemma pool_init_inv: "pool_inv items n (pool_init items n w)"
  by (simp add: pool_inv_def pool_init_def in_flight_def)

lemma step_SendJob_inv:
  assumes "pool_inv items n s" "step h cap SendJob s = Some s'"
  shows "pool_inv items n s'"
proof (cases "unsent s")
  case Nil
  with assms(2) show ?thesis by simp
next
  case (Cons x xs)
  with assms(2) have s': "s' = s\<lparr>unsent := xs, jobs := jobs s @ [x]\<rparr>" and nc: "\<not> jobs_closed s"
    by (auto split: if_splits)
  from assms(1) nc Cons show ?thesis
    by (auto simp: pool_inv_def in_flight_def s')
qed

lemma step_CloseJobs_inv:
  assumes "pool_inv items n s" "step h cap CloseJobs s = Some s'"
  shows "pool_inv items n s'"
  using assms by (auto simp: pool_inv_def in_flight_def split: if_splits)


lemma step_Receive_inv:
  assumes inv: "pool_inv items n s" and st: "step h cap (Receive i) s = Some s'"
  shows "pool_inv items n s'"
proof -
  from st have i: "i < length (workers s)" and r: "workers s ! i = Ranging"
    by (auto split: if_splits)
  from i r have nall: "\<not> list_all (\<lambda>w. w = Returned) (workers s)"
    by (intro not_all_Returned) auto
  with inv have nrc: "\<not> results_closed s" "\<not> collected s" by (auto simp: pool_inv_def)
  show ?thesis
  proof (cases "jobs s")
    case Nil
    with st i r have s': "s' = s\<lparr>workers := (workers s)[i := Returned]\<rparr>" and jc: "jobs_closed s"
      by (auto split: if_splits)
    have "mset (concat (map held ((workers s)[i := Returned]))) = mset (concat (map held (workers s)))"
      using held_update [OF i, of Returned] r by simp
    with inv nrc jc Nil show ?thesis
      by (auto simp: pool_inv_def in_flight_def s')
  next
    case (Cons x xs)
    with st i r have s': "s' = s\<lparr>jobs := xs, workers := (workers s)[i := Handling x]\<rparr>"
      by auto
    have h: "mset (concat (map held ((workers s)[i := Handling x]))) =
             mset (concat (map held (workers s))) + {#x#}"
      using held_update [OF i, of "Handling x"] r by simp
    have nr: "Returned \<notin> set (workers s)"
      using inv Cons by (auto simp: pool_inv_def)
    then have nr': "Returned \<notin> set ((workers s)[i := Handling x])"
      using Returned_update [of "workers s" i "Handling x"] by auto
    from inv nrc Cons nr' show ?thesis
      by (auto simp: pool_inv_def in_flight_def s' h)
  qed
qed

lemma step_Handle_inv:
  assumes inv: "pool_inv items n s" and st: "step h cap (Handle i) s = Some s'"
  shows "pool_inv items n s'"
proof -
  from st have i: "i < length (workers s)" by (auto split: if_splits)
  from st i obtain x where x: "workers s ! i = Handling x"
    by (cases "workers s ! i") auto
  obtain out w' where hx: "h x (pworld s) = (out, w')" by (cases "h x (pworld s)")
  from st i x hx have s': "s' = s\<lparr>workers := (workers s)[i := Ranging],
      results := results s @ [(x, out)], pworld := w'\<rparr>"
    and nrc: "\<not> results_closed s"
    by (auto split: if_splits)
  with inv have nc: "\<not> collected s" by (auto simp: pool_inv_def)
  have h: "mset (concat (map held ((workers s)[i := Ranging]))) + {#x#} =
           mset (concat (map held (workers s)))"
    using held_update [OF i, of Ranging] x by simp
  have r: "Returned \<in> set ((workers s)[i := Ranging]) \<Longrightarrow> Returned \<in> set (workers s)"
    using Returned_update [of "workers s" i Ranging] by auto
  from inv nrc nc r show ?thesis
    by (auto simp: pool_inv_def in_flight_def s' h [symmetric])
qed

lemma step_CloseResults_inv:
  assumes "pool_inv items n s" "step h cap CloseResults s = Some s'"
  shows "pool_inv items n s'"
  using assms by (auto simp: pool_inv_def in_flight_def split: if_splits)

lemma step_Collect_inv:
  assumes inv: "pool_inv items n s" and st: "step h cap Collect s = Some s'"
  shows "pool_inv items n s'"
proof (cases "results s")
  case Nil
  with st have "s' = s\<lparr>collected := True\<rparr>" "results_closed s"
    by (auto split: if_splits)
  with inv Nil show ?thesis by (auto simp: pool_inv_def in_flight_def)
next
  case (Cons r rs)
  with st have "s' = s\<lparr>results := rs, received := received s @ [r]\<rparr>" "\<not> collected s"
    by (auto split: if_splits)
  with inv Cons show ?thesis by (auto simp: pool_inv_def in_flight_def)
qed

lemma step_inv:
  "pool_inv items n s \<Longrightarrow> step h cap e s = Some s' \<Longrightarrow> pool_inv items n s'"
  by (cases e)
     (blast intro: step_SendJob_inv step_CloseJobs_inv step_Receive_inv step_Handle_inv
        step_CloseResults_inv step_Collect_inv)+

lemma run_inv:
  "pool_inv items n s \<Longrightarrow> run h cap sched s = Some s' \<Longrightarrow> pool_inv items n s'"
proof (induction sched arbitrary: s)
  case Nil
  then show ?case by simp
next
  case (Cons e es)
  from Cons.prems(2) obtain s1 where s1: "step h cap e s = Some s1" "run h cap es s1 = Some s'"
    by (auto split: option.splits)
  from step_inv [OF Cons.prems(1) s1(1)] s1(2) show ?case by (rule Cons.IH)
qed

lemma collected_all:
  assumes inv: "pool_inv items n s" and c: "collected s" and n: "0 < n"
  shows "mset (map fst (received s)) = mset items"
proof -
  from inv c have rc: "results_closed s" "results s = []" by (auto simp: pool_inv_def)
  with inv have all: "list_all (\<lambda>w. w = Returned) (workers s)" and len: "length (workers s) = n"
    by (auto simp: pool_inv_def)
  from len n obtain w ws where ws: "workers s = w # ws" by (cases "workers s") auto
  with all have "Returned \<in> set (workers s)" by simp
  with inv have j: "jobs s = []" "unsent s = []" by (auto simp: pool_inv_def)
  from all have "concat (map held (workers s)) = []"
    by (induction "workers s") (auto simp: list_all_iff)
  with inv rc j show ?thesis by (simp add: pool_inv_def in_flight_def)
qed


lemma step_decreases:
  assumes "step h cap e s = Some s'"
  shows "steps_left s = Suc (steps_left s')"
proof (cases e)
  case SendJob
  with assms show ?thesis
    by (cases "unsent s") (auto simp: steps_left_def split: if_splits)
next
  case CloseJobs
  with assms show ?thesis by (auto simp: steps_left_def split: if_splits)
next
  case (Receive i)
  with assms have i: "i < length (workers s)" and r: "workers s ! i = Ranging"
    by (auto split: if_splits)
  show ?thesis
  proof (cases "jobs s")
    case Nil
    with assms Receive i r have s': "s' = s\<lparr>workers := (workers s)[i := Returned]\<rparr>"
      by (auto split: if_splits)
    from worker_steps_update [OF i, of Returned] r show ?thesis
      by (simp add: steps_left_def s')
  next
    case (Cons x xs)
    with assms Receive i r have s': "s' = s\<lparr>jobs := xs, workers := (workers s)[i := Handling x]\<rparr>"
      by auto
    from worker_steps_update [OF i, of "Handling x"] r Cons show ?thesis
      by (simp add: steps_left_def s')
  qed
next
  case (Handle i)
  with assms have i: "i < length (workers s)" by (auto split: if_splits)
  from assms Handle i obtain x where x: "workers s ! i = Handling x"
    by (cases "workers s ! i") auto
  obtain out w' where hx: "h x (pworld s) = (out, w')" by (cases "h x (pworld s)")
  from assms Handle i x hx have s': "s' = s\<lparr>workers := (workers s)[i := Ranging],
      results := results s @ [(x, out)], pworld := w'\<rparr>"
    by (auto split: if_splits)
  from worker_steps_update [OF i, of Ranging] x show ?thesis
    by (simp add: steps_left_def s')
next
  case CloseResults
  with assms show ?thesis by (auto simp: steps_left_def split: if_splits)
next
  case Collect
  with assms show ?thesis
    by (cases "results s") (auto simp: steps_left_def split: if_splits)
qed

lemma run_length:
  "run h cap sched s = Some s' \<Longrightarrow> steps_left s = length sched + steps_left s'"
proof (induction sched arbitrary: s)
  case Nil
  then show ?case by simp
next
  case (Cons e es)
  from Cons.prems obtain s1 where s1: "step h cap e s = Some s1" "run h cap es s1 = Some s'"
    by (auto split: option.splits)
  from step_decreases [OF s1(1)] Cons.IH [OF s1(2)] show ?case by simp
qed

lemma in_flight_size:
  "pool_inv items n s \<Longrightarrow>
     length (unsent s) + length (jobs s) + length (concat (map held (workers s)))
       + length (results s) + length (received s) = length items"
proof -
  assume "pool_inv items n s"
  then have "size (in_flight s) = size (mset items)" by (simp add: pool_inv_def)
  then show ?thesis by (simp add: in_flight_def)
qed

lemma held_nonempty:
  "i < length ws \<Longrightarrow> ws ! i = Handling x \<Longrightarrow> 0 < length (concat (map held ws))"
proof (induction ws arbitrary: i)
  case Nil
  then show ?case by simp
next
  case (Cons a ws)
  then show ?case by (cases i) auto
qed

lemma progress:
  assumes inv: "pool_inv items n s" and nc: "\<not> collected s"
  shows "\<exists>e s'. step h (length items) e s = Some s'"
proof -
  note sz = in_flight_size [OF inv]
  consider (send) "unsent s \<noteq> []"
    | (closing) "unsent s = []" "\<not> jobs_closed s"
    | (handle) i x where "jobs_closed s" "i < length (workers s)" "workers s ! i = Handling x"
    | (recv) i where "jobs_closed s" "i < length (workers s)" "workers s ! i = Ranging"
    | (idle) "jobs_closed s" "list_all (\<lambda>w. w = Returned) (workers s)"
  proof -
    have "list_all (\<lambda>w. w = Returned) (workers s) \<or>
          (\<exists>i < length (workers s). workers s ! i \<noteq> Returned)"
      by (auto simp: list_all_iff in_set_conv_nth)
    then show ?thesis
    proof
      assume "list_all (\<lambda>w. w = Returned) (workers s)"
      then show ?thesis using that(1,2,5) by blast
    next
      assume "\<exists>i < length (workers s). workers s ! i \<noteq> Returned"
      then obtain i where i: "i < length (workers s)" "workers s ! i \<noteq> Returned" by blast
      then show ?thesis using that(1,2,3,4) by (cases "workers s ! i") blast+
    qed
  qed
  then show ?thesis
  proof cases
    case send
    then obtain x xs where x: "unsent s = x # xs" by (cases "unsent s") auto
    with inv have "\<not> jobs_closed s" by (auto simp: pool_inv_def)
    moreover from sz x have "length (jobs s) < length items" by simp
    ultimately have "step h (length items) SendJob s = Some (s\<lparr>unsent := xs, jobs := jobs s @ [x]\<rparr>)"
      using x by simp
    then show ?thesis by blast
  next
    case closing
    then have "step h (length items) CloseJobs s = Some (s\<lparr>jobs_closed := True\<rparr>)" by simp
    then show ?thesis by blast
  next
    case handle
    from held_nonempty [OF handle(2,3)] sz have "length (results s) < length items" by linarith
    moreover from handle(2,3) have "\<not> list_all (\<lambda>w. w = Returned) (workers s)"
      by (intro not_all_Returned) auto
    with inv have "\<not> results_closed s" by (auto simp: pool_inv_def)
    ultimately have "\<exists>s'. step h (length items) (Handle i) s = Some s'"
      using handle(2,3) by (cases "h x (pworld s)") simp
    then show ?thesis by blast
  next
    case recv
    then have "\<exists>s'. step h (length items) (Receive i) s = Some s'"
      by (cases "jobs s") simp_all
    then show ?thesis by blast
  next
    case idle
    show ?thesis
    proof (cases "results_closed s")
      case False
      with idle have "step h (length items) CloseResults s = Some (s\<lparr>results_closed := True\<rparr>)"
        by simp
      then show ?thesis by blast
    next
      case True
      with idle nc have "\<exists>s'. step h (length items) Collect s = Some s'"
        by (cases "results s") simp_all
      then show ?thesis by blast
    qed
  qed
qed

lemma completion:
  "pool_inv items n s \<Longrightarrow>
     \<exists>sched s'. run h (length items) sched s = Some s' \<and> collected s'"
proof (induction "steps_left s" arbitrary: s rule: less_induct)
  case less
  show ?case
  proof (cases "collected s")
    case True
    then have "run h (length items) [] s = Some s \<and> collected s" by simp
    then show ?thesis by blast
  next
    case False
    from progress [OF less.prems False, of h]
    obtain e s1 where st: "step h (length items) e s = Some s1" by blast
    from step_decreases [OF st] have "steps_left s1 < steps_left s" by simp
    moreover from less.prems st have "pool_inv items n s1" by (rule step_inv)
    ultimately obtain sched s' where "run h (length items) sched s1 = Some s'" "collected s'"
      using less.hyps by blast
    with st have "run h (length items) (e # sched) s = Some s' \<and> collected s'" by simp
    then show ?thesis by blast
  qed
qed

section \<open>Properties of the batches\<close>

lemma export_collect_counts:
  "export_collect rs (r, ps) = (r', ps') \<Longrightarrow>
     TotalExported r' + exporter_Result.TotalFailed r' =
       TotalExported r + exporter_Result.TotalFailed r + int (length rs)
     \<and> TotalExported r' - TotalExported r = int (length ps') - int (length ps)"
proof (induction rs arbitrary: r ps)
  case Nil
  then show ?case by simp
next
  case (Cons a rs)
  obtain messageID out where a: "a = (messageID, out)" by (cases a)
  show ?case
  proof (cases out)
    case (Inl err)
    with Cons.prems a Cons.IH [of _ ps] show ?thesis by fastforce
  next
    case (Inr sz)
    with Cons.prems a Cons.IH [of _ "ps @ [\<lparr>ID = messageID, Size = sz\<rparr>]"] show ?thesis
      by fastforce
  qed
qed

lemma import_collect_counts:
  "import_collect rs r = r' \<Longrightarrow>
     TotalImported r' + importer_Result.TotalFailed r' =
       TotalImported r + importer_Result.TotalFailed r + int (length rs)"
proof (induction rs arbitrary: r)
  case Nil
  then show ?case by simp
next
  case (Cons a rs)
  obtain filePath out where a: "a = (filePath, out)" by (cases a)
  show ?case
  proof (cases out)
    case (Inl err)
    with Cons.prems a Cons.IH show ?thesis by fastforce
  next
    case (Inr sz)
    with Cons.prems a Cons.IH show ?thesis by fastforce
  qed
qed

lemma pool_exec_outcomes:
  assumes "pool_exec h items n sched w = Some (outcomes, w')" "0 < n"
  shows "mset (map fst outcomes) = mset items"
proof -
  from assms(1) obtain s where s: "run h (length items) sched (pool_init items n w) = Some s"
    "collected s" "outcomes = received s"
    by (auto simp: pool_exec_def split: option.splits if_splits)
  from run_inv [OF pool_init_inv s(1)] have "pool_inv items n s" .
  from collected_all [OF this s(2) assms(2)] s(3) show ?thesis by simp
qed

lemma pool_exec_completes:
  "\<exists>sched outcomes w'. pool_exec h items n sched w = Some (outcomes, w')"
proof -
  have "pool_inv items n (pool_init items n w)" by (rule pool_init_inv)
  then have "\<exists>sched s'. run h (length items) sched (pool_init items n w) = Some s' \<and> collected s'"
    by (rule completion)
  then obtain sched s where "run h (length items) sched (pool_init items n w) = Some s" "collected s"
    by blast
  then have "pool_exec h items n sched w = Some (received s, pworld s)"
    by (simp add: pool_exec_def)
  then show ?thesis by blast
qed

lemma exportEmails_total:
  assumes "exportEmails cfg E messageIDs sched w = Some (result, w')"
  shows "TotalExported result + exporter_Result.TotalFailed result = int (length messageIDs)"
proof -
  let ?n = "if exporter_Config.ParallelWorkers cfg \<le> 0 then 1 else nat (exporter_Config.ParallelWorkers cfg)"
  have n: "0 < ?n" by simp
  from assms obtain outcomes w1 processedEmails where
    p: "pool_exec (exportSingleEmail cfg E) messageIDs ?n sched w = Some (outcomes, w1)"
    and c: "export_collect outcomes (empty_Result, []) = (result, processedEmails)"
    by (auto simp: exportEmails_def Let_def split: option.splits prod.splits if_splits)
  from pool_exec_outcomes [OF p n] have "size (mset (map fst outcomes)) = size (mset messageIDs)"
    by simp
  then have "length outcomes = length messageIDs" by simp
  with export_collect_counts [OF c] show ?thesis by (simp add: empty_Result_def)
qed


lemma importEmails_total:
  assumes "importEmails cfg E emailFiles sched w = Some (result, w')"
  shows "TotalImported result + importer_Result.TotalFailed result = int (length emailFiles)"
proof -
  let ?n = "if importer_Config.ParallelWorkers cfg \<le> 0 then 1
            else nat (importer_Config.ParallelWorkers cfg)"
  have n: "0 < ?n" by simp
  from assms obtain outcomes where
    p: "pool_exec (importSingleEmail E) emailFiles ?n sched w = Some (outcomes, w')"
    and c: "import_collect outcomes empty_import_Result = result"
    by (auto simp: importEmails_def Let_def split: option.splits prod.splits)
  from pool_exec_outcomes [OF p n] have "size (mset (map fst outcomes)) = size (mset emailFiles)"
    by simp
  then have "length outcomes = length emailFiles" by simp
  with import_collect_counts [OF c] show ?thesis by (simp add: empty_import_Result_def)
qed

lemma exportEmails_completes:
  "\<exists>sched result w'. exportEmails cfg E messageIDs sched w = Some (result, w')"
proof -
  let ?n = "if exporter_Config.ParallelWorkers cfg \<le> 0 then 1
            else nat (exporter_Config.ParallelWorkers cfg)"
  from pool_exec_completes [of "exportSingleEmail cfg E" messageIDs ?n w]
  obtain sched outcomes w1 where
    "pool_exec (exportSingleEmail cfg E) messageIDs ?n sched w = Some (outcomes, w1)" by blast
  then have "\<exists>result w'. exportEmails cfg E messageIDs sched w = Some (result, w')"
    by (cases "export_collect outcomes (empty_Result, [])") (simp add: exportEmails_def)
  then show ?thesis by blast
qed

lemma importEmails_completes:
  "\<exists>sched result w'. importEmails cfg E emailFiles sched w = Some (result, w')"
proof -
  let ?n = "if importer_Config.ParallelWorkers cfg \<le> 0 then 1
            else nat (importer_Config.ParallelWorkers cfg)"
  from pool_exec_completes [of "importSingleEmail E" emailFiles ?n w]
  obtain sched outcomes w1 where
    "pool_exec (importSingleEmail E) emailFiles ?n sched w = Some (outcomes, w1)" by blast
  then have "\<exists>result w'. importEmails cfg E emailFiles sched w = Some (result, w')"
    by (simp add: importEmails_def)
  then show ?thesis by blast
qed

lemma Export_Inr:
  assumes "Export L cfg E filterConfig sched w = Some (Inr result, w')"
  obtains w1 found w2 result0 w3 where
    "Validate filterConfig = None"
    "MkdirAll E (OutputDir cfg) w = Inr w1"
    "searchEmails L E filterConfig w1 = Some (Inr found, w2)"
    "exportEmails cfg E (apply_limit (exporter_Config.Limit cfg) found) sched w2 = Some (result0, w3)"
    "result = result0\<lparr>TotalMatched := int (length (apply_limit (exporter_Config.Limit cfg) found))\<rparr>"
    "w' = save_metrics E (path_join (OutputDir cfg) ''metrics.json'')
            (TotalMatched result, TotalExported result, exporter_Result.TotalFailed result,
             exporter_Result.TotalSize result) w3"
  using assms
  by (auto simp: Export_def Let_def split: option.splits sum.splits prod.splits)

lemma Import_Inr:
  assumes "Import cfg E tree sched w = Some (Inr result, w')"
  obtains found result0 w1 where
    "findEmailFiles cfg tree = Inr found"
    "importEmails cfg E (apply_limit (importer_Config.Limit cfg) found) sched w = Some (result0, w1)"
    "result = result0\<lparr>importer_Result.TotalFound :=
                int (length (apply_limit (importer_Config.Limit cfg) found))\<rparr>"
  using assms
  by (auto simp: Import_def Let_def split: option.splits sum.splits prod.splits)

lemma apply_limit_none:
  "\<not> (limit > 0 \<and> int (length xs) > limit) \<Longrightarrow> apply_limit limit xs = xs"
  unfolding apply_limit_def by (rule if_not_P)

lemma length_apply_limit:
  "int (length (apply_limit limit xs)) =
     (if limit > 0 \<and> int (length xs) > limit then limit else int (length xs))"
proof (cases "limit > 0 \<and> int (length xs) > limit")
  case True
  then have "nat limit < length xs" by linarith
  then have "length (take (nat limit) xs) = nat limit" by simp
  with True show ?thesis by (simp add: apply_limit_def)
next
  case False
  then have "apply_limit limit xs = xs" by (rule apply_limit_none)
  moreover have "(if limit > 0 \<and> int (length xs) > limit then limit else int (length xs)) =
      int (length xs)" using False by (rule if_not_P)
  ultimately show ?thesis by (simp only:)
qed

subsection \<open>The example run\<close>

lemma hello: "decodeBase64URL ''aGVsbG8'' = Inr ''hello''"
  by (simp add: decodeBase64URL_def add_padding_def ReplaceAll_def DecodeString_def
      encodeStd_def char_of_def bit_Suc_0_iff)

lemma example_handler:
  "messageID \<in> set [''m1'', ''m2'', ''m3''] \<Longrightarrow>
   exportSingleEmail example_config example_env messageID w =
     (if messageID = ''m2'' then Inl ''failed to get raw message: not found'' else Inr 5,
      if messageID = ''m2''
      then w\<lparr>calls := calls w @ [MessagesGet messageID ''full'', MessagesGet messageID ''raw'']\<rparr>
      else w\<lparr>files := (files w)(''out/'' @ messageID @ ''.eml'' \<mapsto> ''hello''),
             calls := calls w @ [MessagesGet messageID ''full'', MessagesGet messageID ''raw'']\<rparr>)"
  by (auto simp: exportSingleEmail_def example_config_def example_env_def getOutputPath_def
      exportAsEML_def hello WriteFile_def api_def path_eval)

lemma example_workers: "exporter_Config.ParallelWorkers example_config = 2"
  by (simp add: example_config_def)

lemma example_exportEmails:
  "map_option fst (exportEmails example_config example_env [''m1'', ''m2'', ''m3'']
      interleaved_schedule empty_world) =
   Some \<lparr>TotalMatched = 0, TotalExported = 2, exporter_Result.TotalFailed = 1,
         exporter_Result.TotalSize = 10,
         exporter_Result.Failures = [\<lparr>exporter_Failure.EmailID = ''m2'',
            exporter_Failure.Error = ''failed to get raw message: not found''\<rparr>]\<rparr>"
  by (simp add: exportEmails_def pool_exec_def pool_init_def interleaved_schedule_def
      example_handler empty_Result_def saveProcessedEmailsFilter_def
      example_workers eval_nat_numeral)

subsection \<open>One outcome per item\<close>

text \<open>
  Claim C1: every item submitted to the worker pool produces exactly one outcome. For
  every list of items, every number of workers from 1 on and every schedule under which
  the pool runs to its end, the outcomes received are, as a multiset, the items
  submitted; \<open>exportEmails\<close> and \<open>importEmails\<close> (which never run fewer than one worker)
  return a result with succeeded + failed equal to the number of items they were given,
  which is the number of matches when the limit does not truncate; a schedule under which
  they return exists; and the result of \<open>Export\<close> and \<open>Import\<close> always has
  succeeded + failed \<open>\<le>\<close> matched.
\<close>

theorem worker_pool_one_outcome_per_item:
  "(\<forall>outcomes w'. 0 < n \<and> pool_exec h items n sched w = Some (outcomes, w')
       \<longrightarrow> mset (map fst outcomes) = mset items \<and> length outcomes = length items)
   \<and> (\<forall>result w'. exportEmails cfg E items sched ew = Some (result, w')
       \<longrightarrow> TotalExported result + exporter_Result.TotalFailed result = int (length items))
   \<and> (\<forall>result w'. importEmails icfg E items sched ew = Some (result, w')
       \<longrightarrow> TotalImported result + importer_Result.TotalFailed result = int (length items))
   \<and> (\<forall>found result w'.
         \<not> (exporter_Config.Limit cfg > 0 \<and> int (length found) > exporter_Config.Limit cfg)
         \<and> exportEmails cfg E (apply_limit (exporter_Config.Limit cfg) found) sched ew
             = Some (result, w')
       \<longrightarrow> TotalExported result + exporter_Result.TotalFailed result = int (length found))
   \<and> (\<forall>found result w'.
         \<not> (importer_Config.Limit icfg > 0 \<and> int (length found) > importer_Config.Limit icfg)
         \<and> importEmails icfg E (apply_limit (importer_Config.Limit icfg) found) sched ew
             = Some (result, w')
       \<longrightarrow> TotalImported result + importer_Result.TotalFailed result = int (length found))
   \<and> (\<exists>sched' result w'. exportEmails cfg E items sched' ew = Some (result, w'))
   \<and> (\<exists>sched' result w'. importEmails icfg E items sched' ew = Some (result, w'))
   \<and> (\<forall>result w'. Export L cfg E filterConfig sched ew = Some (Inr result, w')
       \<longrightarrow> TotalExported result + exporter_Result.TotalFailed result \<le> TotalMatched result)
   \<and> (\<forall>result w'. Import icfg E tree sched ew = Some (Inr result, w')
       \<longrightarrow> TotalImported result + importer_Result.TotalFailed result
             \<le> importer_Result.TotalFound result)"
proof (intro conjI allI impI)
  fix outcomes w'
  assume a: "0 < n \<and> pool_exec h items n sched w = Some (outcomes, w')"
  then have m: "mset (map fst outcomes) = mset items" by (intro pool_exec_outcomes) auto
  then show "mset (map fst outcomes) = mset items" .
  from m have "size (mset (map fst outcomes)) = size (mset items)" by simp
  then show "length outcomes = length items" by simp
next
  fix result w'
  assume "exportEmails cfg E items sched ew = Some (result, w')"
  then show "TotalExported result + exporter_Result.TotalFailed result = int (length items)"
    by (rule exportEmails_total)
next
  fix result w'
  assume "importEmails icfg E items sched ew = Some (result, w')"
  then show "TotalImported result + importer_Result.TotalFailed result = int (length items)"
    by (rule importEmails_total)
next
  fix found result w'
  assume a: "\<not> (exporter_Config.Limit cfg > 0 \<and> int (length found) > exporter_Config.Limit cfg)
         \<and> exportEmails cfg E (apply_limit (exporter_Config.Limit cfg) found) sched ew
             = Some (result, w')"
  then have "apply_limit (exporter_Config.Limit cfg) found = found"
    by (intro apply_limit_none) blast
  with a exportEmails_total [of cfg E found sched ew result w']
  show "TotalExported result + exporter_Result.TotalFailed result = int (length found)"
    by simp
next
  fix found result w'
  assume a: "\<not> (importer_Config.Limit icfg > 0 \<and> int (length found) > importer_Config.Limit icfg)
         \<and> importEmails icfg E (apply_limit (importer_Config.Limit icfg) found) sched ew
             = Some (result, w')"
  then have "apply_limit (importer_Config.Limit icfg) found = found"
    by (intro apply_limit_none) blast
  with a importEmails_total [of icfg E found sched ew result w']
  show "TotalImported result + importer_Result.TotalFailed result = int (length found)"
    by simp
next
  show "\<exists>sched' result w'. exportEmails cfg E items sched' ew = Some (result, w')"
    by (rule exportEmails_completes)
  show "\<exists>sched' result w'. importEmails icfg E items sched' ew = Some (result, w')"
    by (rule importEmails_completes)
next
  fix result w'
  assume "Export L cfg E filterConfig sched ew = Some (Inr result, w')"
  then obtain found w2 result0 w3 where
    e: "exportEmails cfg E (apply_limit (exporter_Config.Limit cfg) found) sched w2 = Some (result0, w3)"
    and r: "result = result0\<lparr>TotalMatched := int (length (apply_limit (exporter_Config.Limit cfg) found))\<rparr>"
    by (rule Export_Inr)
  from exportEmails_total [OF e] r
  show "TotalExported result + exporter_Result.TotalFailed result \<le> TotalMatched result"
    by simp
next
  fix result w'
  assume "Import icfg E tree sched ew = Some (Inr result, w')"
  then obtain found result0 w1 where
    e: "importEmails icfg E (apply_limit (importer_Config.Limit icfg) found) sched ew = Some (result0, w1)"
    and r: "result = result0\<lparr>importer_Result.TotalFound :=
                int (length (apply_limit (importer_Config.Limit icfg) found))\<rparr>"
    by (rule Import_Inr)
  from importEmails_total [OF e] r
  show "TotalImported result + importer_Result.TotalFailed result
             \<le> importer_Result.TotalFound result"
    by simp
qed


theorem worker_pool_one_outcome_per_item_witness:
  "map_option fst (exportEmails example_config example_env [''m1'', ''m2'', ''m3'']
      interleaved_schedule empty_world) =
   Some \<lparr>TotalMatched = 0, TotalExported = 2, exporter_Result.TotalFailed = 1,
         exporter_Result.TotalSize = 10,
         exporter_Result.Failures = [\<lparr>exporter_Failure.EmailID = ''m2'',
            exporter_Failure.Error = ''failed to get raw message: not found''\<rparr>]\<rparr>
   \<and> (2::int) + 1 = int (length [''m1'', ''m2'', ''m3''])"
proof -
  let ?R = "\<lparr>TotalMatched = 0, TotalExported = 2, exporter_Result.TotalFailed = 1,
         exporter_Result.TotalSize = 10,
         exporter_Result.Failures = [\<lparr>exporter_Failure.EmailID = ''m2'',
            exporter_Failure.Error = ''failed to get raw message: not found''\<rparr>]\<rparr>"
  from example_exportEmails obtain w' where
    run: "exportEmails example_config example_env [''m1'', ''m2'', ''m3'']
            interleaved_schedule empty_world = Some (?R, w')"
    by (cases "exportEmails example_config example_env [''m1'', ''m2'', ''m3'']
            interleaved_schedule empty_world") auto
  from worker_pool_one_outcome_per_item [THEN conjunct2, THEN conjunct1, rule_format, OF run]
  have "TotalExported ?R + exporter_Result.TotalFailed ?R = int (length [''m1'', ''m2'', ''m3''])" .
  then show ?thesis using example_exportEmails by simp
qed

section \<open>Properties of the exporter\<close>

subsection \<open>What a failed export leaves behind\<close>

lemma getOutputPath_files:
  "getOutputPath cfg E message w = (r, w') \<Longrightarrow> files w' = files w \<and> calls w' = calls w"
  by (auto simp: getOutputPath_def MkdirAll_def Let_def split: if_splits sum.splits option.splits list.splits)

lemma exportAsEML_failure_files:
  "exportAsEML E message outputPath w = (Inl err, w') \<Longrightarrow> files w' = files w"
  by (auto simp: exportAsEML_def api_def Let_def split: sum.splits)

lemma exportAsJSON_failure_files:
  "exportAsJSON E message outputPath w = (Inl err, w') \<Longrightarrow> files w' = files w"
  by (auto simp: exportAsJSON_def split: sum.splits)

lemma exportSingleEmail_failure_files:
  assumes "exportSingleEmail cfg E messageID w = (Inl err, w')"
  shows "files w' = files w"
proof (cases "get_full E messageID")
  case (Inl e)
  with assms show ?thesis by (auto simp: exportSingleEmail_def api_def Let_def)
next
  case (Inr message)
  obtain r w2 where g: "getOutputPath cfg E message (api (MessagesGet messageID ''full'') w) = (r, w2)"
    by (cases "getOutputPath cfg E message (api (MessagesGet messageID ''full'') w)")
  from getOutputPath_files [OF g] have f2: "files w2 = files w" by (simp add: api_def)
  show ?thesis
  proof (cases r)
    case (Inl e)
    with assms Inr g f2 show ?thesis by (simp add: exportSingleEmail_def Let_def)
  next
    case p: (Inr outputPath)
    from assms Inr g p have
      "exportAsEML E message outputPath w2 = (Inl err, w') \<or>
       exportAsJSON E message outputPath w2 = (Inl err, w') \<or> w' = w2"
      by (auto simp: exportSingleEmail_def Let_def exportAsMbox_def split: if_splits)
    with f2 show ?thesis
      by (auto dest: exportAsEML_failure_files exportAsJSON_failure_files)
  qed
qed

subsection \<open>A batch without a success writes nothing\<close>

lemma run_invariant:
  assumes step: "\<And>e s s'. I s \<Longrightarrow> step h cap e s = Some s' \<Longrightarrow> I s'"
    and "I s" "run h cap sched s = Some s'"
  shows "I s'"
  using assms(2,3)
proof (induction sched arbitrary: s)
  case Nil
  then show ?case by simp
next
  case (Cons e es)
  from Cons.prems(2) obtain s1 where s1: "step h cap e s = Some s1" "run h cap es s1 = Some s'"
    by (auto split: option.splits)
  from step [OF Cons.prems(1) s1(1)] s1(2) show ?case by (rule Cons.IH)
qed

lemma step_failures_frame:
  assumes frame: "\<And>x w err w'. h x w = (Inl err, w') \<Longrightarrow> f w' = f w"
    and I: "(\<forall>r \<in> set (results s) \<union> set (received s). isl (snd r)) \<longrightarrow> f (pworld s) = f w0"
    and st: "step h cap e s = Some s'"
  shows "(\<forall>r \<in> set (results s') \<union> set (received s'). isl (snd r)) \<longrightarrow> f (pworld s') = f w0"
proof (cases e)
  case SendJob
  with st I show ?thesis by (cases "unsent s") (auto split: if_splits)
next
  case CloseJobs
  with st I show ?thesis by (auto split: if_splits)
next
  case (Receive i)
  with st I show ?thesis by (cases "jobs s") (auto split: if_splits)
next
  case (Handle i)
  with st have i: "i < length (workers s)" by (auto split: if_splits)
  from st Handle i obtain x where x: "workers s ! i = Handling x"
    by (cases "workers s ! i") auto
  obtain out w' where hx: "h x (pworld s) = (out, w')" by (cases "h x (pworld s)")
  from st Handle i x hx have s': "s' = s\<lparr>workers := (workers s)[i := Ranging],
      results := results s @ [(x, out)], pworld := w'\<rparr>"
    by (auto split: if_splits)
  show ?thesis
  proof (cases out)
    case (Inl err)
    with hx have "f w' = f (pworld s)" by (intro frame) simp
    with I show ?thesis by (auto simp: s')
  next
    case (Inr sz)
    then show ?thesis by (auto simp: s')
  qed
next
  case CloseResults
  with st I show ?thesis by (auto split: if_splits)
next
  case Collect
  with st I show ?thesis by (cases "results s") (auto split: if_splits)
qed

lemma pool_exec_failures_frame:
  assumes frame: "\<And>x w err w'. h x w = (Inl err, w') \<Longrightarrow> f w' = f w"
    and p: "pool_exec h items n sched w0 = Some (outcomes, w')"
    and all: "\<forall>r \<in> set outcomes. isl (snd r)"
  shows "f w' = f w0"
proof -
  from p obtain s where s: "run h (length items) sched (pool_init items n w0) = Some s"
    "collected s" "outcomes = received s" "w' = pworld s"
    by (auto simp: pool_exec_def split: option.splits if_splits)
  let ?I = "\<lambda>s. (\<forall>r \<in> set (results s) \<union> set (received s). isl (snd r)) \<longrightarrow> f (pworld s) = f w0"
  have "?I s"
  proof (rule run_invariant [where I = ?I, OF _ _ s(1)])
    show "?I (pool_init items n w0)" by (simp add: pool_init_def)
  next
    fix e s s'
    assume "?I s" "step h (length items) e s = Some s'"
    with frame show "?I s'" by (rule step_failures_frame)
  qed
  moreover from run_inv [OF pool_init_inv s(1)] s(2) have "results s = []"
    by (simp add: pool_inv_def)
  ultimately show ?thesis using all s(3,4) by simp
qed


subsection \<open>The manifest\<close>

lemma export_collect_records:
  "export_collect rs (r, ps) = (r', ps') \<Longrightarrow>
     map ID ps' = map ID ps @ map fst (filter (\<lambda>out. \<not> isl (snd out)) rs)
     \<and> map exporter_Failure.EmailID (exporter_Result.Failures r') =
         map exporter_Failure.EmailID (exporter_Result.Failures r)
           @ map fst (filter (\<lambda>out. isl (snd out)) rs)"
proof (induction rs arbitrary: r ps)
  case Nil
  then show ?case by simp
next
  case (Cons a rs)
  obtain messageID out where a: "a = (messageID, out)" by (cases a)
  show ?case
  proof (cases out)
    case (Inl err)
    with Cons.prems a Cons.IH [of _ ps] show ?thesis by fastforce
  next
    case (Inr sz)
    with Cons.prems a Cons.IH [of _ "ps @ [\<lparr>ID = messageID, Size = sz\<rparr>]"] show ?thesis
      by fastforce
  qed
qed

lemma exportEmails_Some:
  assumes "exportEmails cfg E messageIDs sched w = Some (result, w')"
  obtains outcomes w1 processedEmails where
    "pool_exec (exportSingleEmail cfg E) messageIDs
       (if exporter_Config.ParallelWorkers cfg \<le> 0 then 1
        else nat (exporter_Config.ParallelWorkers cfg)) sched w = Some (outcomes, w1)"
    "export_collect outcomes (empty_Result, []) = (result, processedEmails)"
    "w' = (if length processedEmails > 0
           then snd (saveProcessedEmailsFilter cfg E processedEmails w1) else w1)"
  using assms
  by (auto simp: exportEmails_def Let_def split: option.splits prod.splits if_splits)

lemma saveProcessedEmailsFilter_written:
  "marshal_processed E ps = Inr data \<Longrightarrow> write_fails E (manifest_path cfg) = None \<Longrightarrow>
     files (snd (saveProcessedEmailsFilter cfg E ps w)) (manifest_path cfg) = Some data"
  by (simp add: saveProcessedEmailsFilter_def WriteFile_def)

lemma exportEmails_manifest:
  assumes "exportEmails cfg E messageIDs sched w = Some (result, w')"
  shows "(TotalExported result = 0 \<longrightarrow> files w' = files w)
    \<and> (files w' (manifest_path cfg) \<noteq> files w (manifest_path cfg) \<longrightarrow> 0 < TotalExported result)
    \<and> (0 < TotalExported result \<longrightarrow>
         (\<exists>processedEmails.
            int (length processedEmails) = TotalExported result
            \<and> mset (map ID processedEmails)
                + mset (map exporter_Failure.EmailID (exporter_Result.Failures result))
                = mset messageIDs
            \<and> (\<forall>data. marshal_processed E processedEmails = Inr data
                  \<and> write_fails E (manifest_path cfg) = None
                  \<longrightarrow> files w' (manifest_path cfg) = Some data)))"
proof -
  let ?n = "if exporter_Config.ParallelWorkers cfg \<le> 0 then 1
            else nat (exporter_Config.ParallelWorkers cfg)"
  from assms obtain outcomes w1 ps where
    p: "pool_exec (exportSingleEmail cfg E) messageIDs ?n sched w = Some (outcomes, w1)"
    and c: "export_collect outcomes (empty_Result, []) = (result, ps)"
    and w': "w' = (if length ps > 0 then snd (saveProcessedEmailsFilter cfg E ps w1) else w1)"
    by (rule exportEmails_Some)
  have n: "0 < ?n" by simp
  from export_collect_counts [OF c] have len: "int (length ps) = TotalExported result"
    by (simp add: empty_Result_def)
  from export_collect_records [OF c]
  have ids: "map ID ps = map fst (filter (\<lambda>out. \<not> isl (snd out)) outcomes)"
    and fails: "map exporter_Failure.EmailID (exporter_Result.Failures result) =
                  map fst (filter (\<lambda>out. isl (snd out)) outcomes)"
    by (simp_all add: empty_Result_def)
  have zero: "files w' = files w" if "TotalExported result = 0"
  proof -
    from that len have "ps = []" by simp
    with ids have "filter (\<lambda>out. \<not> isl (snd out)) outcomes = []" by simp
    then have "\<forall>r \<in> set outcomes. isl (snd r)" by (simp add: filter_empty_conv)
    with exportSingleEmail_failure_files p have "files w1 = files w"
      by (rule pool_exec_failures_frame)
    with w' \<open>ps = []\<close> show ?thesis by simp
  qed
  have nonneg: "0 \<le> TotalExported result" using len by linarith
  have part: "mset (map ID ps)
                + mset (map exporter_Failure.EmailID (exporter_Result.Failures result))
                = mset messageIDs"
  proof -
    have "mset (map fst (filter (\<lambda>out. \<not> isl (snd out)) outcomes))
            + mset (map fst (filter (\<lambda>out. isl (snd out)) outcomes))
          = mset (map fst outcomes)"
      by (induction outcomes) auto
    with pool_exec_outcomes [OF p n] show ?thesis by (simp only: ids fails)
  qed
  have written: "files w' (manifest_path cfg) = Some data"
    if "0 < TotalExported result" "marshal_processed E ps = Inr data"
      "write_fails E (manifest_path cfg) = None" for data
  proof -
    from that(1) len have "length ps > 0" by linarith
    with w' have "w' = snd (saveProcessedEmailsFilter cfg E ps w1)" by simp
    with saveProcessedEmailsFilter_written [OF that(2,3)] show ?thesis by simp
  qed
  show ?thesis
  proof (intro conjI impI)
    assume "TotalExported result = 0"
    then show "files w' = files w" by (rule zero)
  next
    assume d: "files w' (manifest_path cfg) \<noteq> files w (manifest_path cfg)"
    show "0 < TotalExported result"
    proof (rule ccontr)
      assume "\<not> 0 < TotalExported result"
      with nonneg have "TotalExported result = 0" by linarith
      from zero [OF this] d show False by simp
    qed
  next
    assume pos: "0 < TotalExported result"
    from len part written [OF pos]
    show "\<exists>processedEmails.
            int (length processedEmails) = TotalExported result
            \<and> mset (map ID processedEmails)
                + mset (map exporter_Failure.EmailID (exporter_Result.Failures result))
                = mset messageIDs
            \<and> (\<forall>data. marshal_processed E processedEmails = Inr data
                  \<and> write_fails E (manifest_path cfg) = None
                  \<longrightarrow> files w' (manifest_path cfg) = Some data)"
      by blast
  qed
qed


text \<open>
  Claim C10: when an export batch ends with no successfully exported item, no file is
  written at all, so the manifest on disk stays as it was; the manifest changes only when
  at least one item succeeded; and when at least one succeeded, the list that is
  marshalled and written to the manifest has one record per exported item: its length is
  the number exported, and its identifiers together with those of the failures are exactly
  the identifiers submitted. (The write itself can fail, which the code only logs.)
\<close>

theorem manifest_only_after_success:
  assumes "exportEmails cfg E messageIDs sched w = Some (result, w')"
  shows "(TotalExported result = 0 \<longrightarrow> files w' = files w)
    \<and> (files w' (manifest_path cfg) \<noteq> files w (manifest_path cfg) \<longrightarrow> 0 < TotalExported result)
    \<and> (0 < TotalExported result \<longrightarrow>
         (\<exists>processedEmails.
            int (length processedEmails) = TotalExported result
            \<and> mset (map ID processedEmails)
                + mset (map exporter_Failure.EmailID (exporter_Result.Failures result))
                = mset messageIDs
            \<and> (\<forall>data. marshal_processed E processedEmails = Inr data
                  \<and> write_fails E (manifest_path cfg) = None
                  \<longrightarrow> files w' (manifest_path cfg) = Some data)))"
  using assms by (rule exportEmails_manifest)

lemma example_manifest_path: "manifest_path example_config = ''out/processed_emails.json''"
  by (simp add: manifest_path_def example_config_def path_eval)

lemma example_only_failure:
  "map_option (\<lambda>(r, w). TotalExported r)
     (exportEmails example_config example_env [''m2''] (sequential_schedule 1 2)
        (empty_world\<lparr>files := [''out/processed_emails.json'' \<mapsto> ''m9;'']\<rparr>)) = Some 0"
  by (simp add: exportEmails_def pool_exec_def pool_init_def sequential_schedule_def
      example_handler empty_Result_def example_workers eval_nat_numeral empty_world_def)

lemma example_marshal:
  "marshal_processed example_env ps = Inr (concat (map (\<lambda>p. ID p @ '';'') ps))"
  "write_fails example_env path = None"
  by (simp_all add: example_env_def)

lemma example_manifest:
  "map_option (\<lambda>(r, w). files w ''out/processed_emails.json'')
     (exportEmails example_config example_env [''m1'', ''m2'', ''m3'']
        interleaved_schedule empty_world) = Some (Some ''m1;m3;'')"
  by (simp add: exportEmails_def pool_exec_def pool_init_def interleaved_schedule_def
      example_handler empty_Result_def saveProcessedEmailsFilter_def example_workers
      eval_nat_numeral empty_world_def example_manifest_path WriteFile_def example_marshal)

theorem manifest_only_after_success_witness:
  "map_option (\<lambda>(r, w). (TotalExported r, files w ''out/processed_emails.json''))
     (exportEmails example_config example_env [''m2''] (sequential_schedule 1 2)
        (empty_world\<lparr>files := [''out/processed_emails.json'' \<mapsto> ''m9;'']\<rparr>))
     = Some (0, Some ''m9;'')
   \<and> map_option (\<lambda>(r, w). (0 < TotalExported r, files w ''out/processed_emails.json''))
     (exportEmails example_config example_env [''m1'', ''m2'', ''m3'']
        interleaved_schedule empty_world) = Some (True, Some ''m1;m3;'')"
proof
  let ?w = "empty_world\<lparr>files := [''out/processed_emails.json'' \<mapsto> ''m9;'']\<rparr>"
  from example_only_failure obtain r w' where
    run: "exportEmails example_config example_env [''m2''] (sequential_schedule 1 2) ?w
            = Some (r, w')"
    and zero: "TotalExported r = 0"
    by (cases "exportEmails example_config example_env [''m2''] (sequential_schedule 1 2) ?w")
       auto
  from manifest_only_after_success [OF run] zero have "files w' = files ?w" by blast
  with run zero show "map_option (\<lambda>(r, w). (TotalExported r, files w ''out/processed_emails.json''))
     (exportEmails example_config example_env [''m2''] (sequential_schedule 1 2) ?w)
     = Some (0, Some ''m9;'')" by simp
next
  from example_manifest obtain r w' where
    run: "exportEmails example_config example_env [''m1'', ''m2'', ''m3'']
            interleaved_schedule empty_world = Some (r, w')"
    and m: "files w' ''out/processed_emails.json'' = Some ''m1;m3;''"
    by (cases "exportEmails example_config example_env [''m1'', ''m2'', ''m3'']
            interleaved_schedule empty_world") auto
  from m have "files w' (manifest_path example_config)
                 \<noteq> files empty_world (manifest_path example_config)"
    by (simp add: example_manifest_path empty_world_def)
  with manifest_only_after_success [OF run] have "0 < TotalExported r" by blast
  with run m show "map_option (\<lambda>(r, w). (0 < TotalExported r, files w ''out/processed_emails.json''))
     (exportEmails example_config example_env [''m1'', ''m2'', ''m3'']
        interleaved_schedule empty_world) = Some (True, Some ''m1;m3;'')" by simp
qed

subsection \<open>The mbox format\<close>

text \<open>
  Claim C9: exporting a message as mbox is exporting it as EML. For every message, path
  and world, \<open>exportAsMbox\<close> returns what \<open>exportAsEML\<close> returns and leaves the same
  world. For a whole export of one message in the two formats from the same world: when
  both succeed, they return the same size, and the file written for the one format has
  the same content as the file written for the other; the two paths are the same
  directory and message identifier with the extensions \<open>.mbox\<close> and \<open>.eml\<close>; and when
  the file system treats the two paths alike, the two exports return the same outcome.
\<close>

theorem mbox_is_eml:
  "exportAsMbox E message outputPath w = exportAsEML E message outputPath w
   \<and> (\<forall>message dir sz sz' wm we.
         get_full E messageID = Inr message
         \<and> dir = (if OrganizeByLabels cfg
                   then path_join (OutputDir cfg)
                          (case LabelIds message of [] \<Rightarrow> ''unlabeled'' | l # _ \<Rightarrow> l)
                   else OutputDir cfg)
         \<and> exportSingleEmail (cfg\<lparr>Format := ''mbox''\<rparr>) E messageID w = (Inr sz, wm)
         \<and> exportSingleEmail (cfg\<lparr>Format := ''eml''\<rparr>) E messageID w = (Inr sz', we)
         \<longrightarrow> sz = sz'
             \<and> (\<exists>data. files wm (path_join dir (Id message @ ''.mbox'')) = Some data
                     \<and> files we (path_join dir (Id message @ ''.eml'')) = Some data
                     \<and> sz = int (length data)))
   \<and> (\<forall>message dir.
         get_full E messageID = Inr message
         \<and> dir = (if OrganizeByLabels cfg
                   then path_join (OutputDir cfg)
                          (case LabelIds message of [] \<Rightarrow> ''unlabeled'' | l # _ \<Rightarrow> l)
                   else OutputDir cfg)
         \<and> write_fails E (path_join dir (Id message @ ''.mbox''))
             = write_fails E (path_join dir (Id message @ ''.eml''))
         \<longrightarrow> fst (exportSingleEmail (cfg\<lparr>Format := ''mbox''\<rparr>) E messageID w)
             = fst (exportSingleEmail (cfg\<lparr>Format := ''eml''\<rparr>) E messageID w))"
  apply (intro conjI allI impI)
  subgoal by (simp add: exportAsMbox_def)
  subgoal
    by (auto simp: exportSingleEmail_def exportAsMbox_def exportAsEML_def getOutputPath_def
        MkdirAll_def WriteFile_def api_def Let_def
        split: sum.splits option.splits if_splits list.splits)
  subgoal
    by (auto simp: exportSingleEmail_def exportAsMbox_def exportAsEML_def getOutputPath_def
        MkdirAll_def WriteFile_def api_def Let_def
        split: sum.splits option.splits if_splits list.splits)
  subgoal
    by (auto simp: exportSingleEmail_def exportAsMbox_def exportAsEML_def getOutputPath_def
        MkdirAll_def WriteFile_def api_def Let_def
        split: sum.splits option.splits if_splits list.splits)
  done


lemma example_mbox:
  "exportSingleEmail (example_config\<lparr>Format := ''mbox''\<rparr>) example_env ''m1'' empty_world =
     (Inr 5, \<lparr>files = [''out/m1.mbox'' \<mapsto> ''hello''], dirs = {},
              calls = [MessagesGet ''m1'' ''full'', MessagesGet ''m1'' ''raw'']\<rparr>)"
  by (simp add: exportSingleEmail_def example_config_def example_env_def getOutputPath_def
      exportAsMbox_def exportAsEML_def hello WriteFile_def api_def path_eval empty_world_def)

lemma example_eml:
  "exportSingleEmail (example_config\<lparr>Format := ''eml''\<rparr>) example_env ''m1'' empty_world =
     (Inr 5, \<lparr>files = [''out/m1.eml'' \<mapsto> ''hello''], dirs = {},
              calls = [MessagesGet ''m1'' ''full'', MessagesGet ''m1'' ''raw'']\<rparr>)"
  by (simp add: exportSingleEmail_def example_config_def example_env_def getOutputPath_def
      exportAsMbox_def exportAsEML_def hello WriteFile_def api_def path_eval empty_world_def)

theorem mbox_is_eml_witness:
  "fst (exportSingleEmail (example_config\<lparr>Format := ''mbox''\<rparr>) example_env ''m1'' empty_world)
     = Inr 5
   \<and> fst (exportSingleEmail (example_config\<lparr>Format := ''eml''\<rparr>) example_env ''m1'' empty_world)
     = Inr 5
   \<and> files (snd (exportSingleEmail (example_config\<lparr>Format := ''mbox''\<rparr>) example_env ''m1''
                    empty_world)) ''out/m1.mbox''
     = files (snd (exportSingleEmail (example_config\<lparr>Format := ''eml''\<rparr>) example_env ''m1''
                    empty_world)) ''out/m1.eml''"
proof -
  let ?wm = "\<lparr>files = [''out/m1.mbox'' \<mapsto> ''hello''], dirs = {},
              calls = [MessagesGet ''m1'' ''full'', MessagesGet ''m1'' ''raw'']\<rparr>"
  let ?we = "\<lparr>files = [''out/m1.eml'' \<mapsto> ''hello''], dirs = {},
              calls = [MessagesGet ''m1'' ''full'', MessagesGet ''m1'' ''raw'']\<rparr>"
  have "(5::int) = 5
      \<and> (\<exists>data. files ?wm (path_join ''out'' (Id \<lparr>Id = ''m1'', LabelIds = []\<rparr> @ ''.mbox'')) = Some data
              \<and> files ?we (path_join ''out'' (Id \<lparr>Id = ''m1'', LabelIds = []\<rparr> @ ''.eml'')) = Some data
              \<and> (5::int) = int (length data))"
    by (rule mbox_is_eml [where E = example_env and cfg = example_config
          and messageID = "''m1''" and w = empty_world,
          THEN conjunct2, THEN conjunct1, rule_format])
       (simp add: example_mbox example_eml, simp add: example_env_def example_config_def)
  then have "files ?wm ''out/m1.mbox'' = files ?we ''out/m1.eml''"
    by (auto simp: path_eval)
  then show ?thesis by (simp add: example_mbox example_eml)
qed

subsection \<open>The limit and the number of matches\<close>

lemma save_metrics_other:
  "path \<noteq> filename \<Longrightarrow> files (save_metrics E filename m w) path = files w path"
  by (auto simp: save_metrics_def WriteFile_def split: sum.splits option.splits)

lemma metrics_not_manifest:
  "manifest_path cfg \<noteq> path_join (OutputDir cfg) ''metrics.json''"
proof
  assume "manifest_path cfg = path_join (OutputDir cfg) ''metrics.json''"
  then have e: "path_join (OutputDir cfg) ''processed_emails.json''
               = path_join (OutputDir cfg) ''metrics.json''"
    by (simp only: manifest_path_def)
  have p: "plain_name ''processed_emails.json''" "plain_name ''metrics.json''"
    by (simp_all add: plain_name_def)
  from p e have "''processed_emails.json'' = ''metrics.json''"
    by (rule path_join_inject)
  then show False by simp
qed

lemma example_limited_handler:
  "exportSingleEmail (example_config\<lparr>exporter_Config.Limit := l\<rparr>) example_env messageID w =
     exportSingleEmail example_config example_env messageID w"
  by (simp add: exportSingleEmail_def example_config_def example_env_def getOutputPath_def
      exportAsEML_def hello WriteFile_def api_def)

lemma example_fs:
  "mkdir_fails example_env path = None"
  "marshal_metrics example_env m = Inr ''{}''"
  by (simp_all add: example_env_def)

lemma example_search:
  "searchEmails no_dates example_env filterConfig w =
     Some (Inr [''m1'', ''m2'', ''m3''],
           w\<lparr>calls := calls w @ [MessagesList (BuildGmailQuery no_dates filterConfig) []]\<rparr>)"
  unfolding searchEmails_def
  by (subst search_pages.simps) (simp add: example_env_def api_def)

lemma example_limited_export:
  "map_option fst
     (Export no_dates (example_config\<lparr>exporter_Config.Limit := 1\<rparr>) example_env
        (empty_filter\<lparr>Subject := ''Invoice''\<rparr>) (sequential_schedule 1 2) empty_world) =
     Some (Inr \<lparr>TotalMatched = 1, TotalExported = 1, exporter_Result.TotalFailed = 0,
                exporter_Result.TotalSize = 5, exporter_Result.Failures = []\<rparr>)"
  by (simp add: example_search example_fs save_metrics_def Export_def Validate_def empty_filter_def MkdirAll_def
      example_marshal apply_limit_def exportEmails_def pool_exec_def pool_init_def
      sequential_schedule_def example_limited_handler example_handler empty_Result_def
      saveProcessedEmailsFilter_def eval_nat_numeral empty_world_def WriteFile_def
      example_config_def [THEN arg_cong, of "\<lambda>c. exporter_Config.ParallelWorkers (c\<lparr>exporter_Config.Limit := 1\<rparr>)"]
      example_config_def [THEN arg_cong, of "\<lambda>c. exporter_Config.Limit (c\<lparr>exporter_Config.Limit := 1\<rparr>)"]
      example_config_def [THEN arg_cong, of "\<lambda>c. OutputDir (c\<lparr>exporter_Config.Limit := 1\<rparr>)"])


lemma exportEmails_records:
  assumes "exportEmails cfg E messageIDs sched w = Some (result, w')"
  shows "\<exists>processedEmails.
            int (length processedEmails) = TotalExported result
            \<and> int (length (exporter_Result.Failures result)) = exporter_Result.TotalFailed result
            \<and> mset (map ID processedEmails)
                + mset (map exporter_Failure.EmailID (exporter_Result.Failures result))
                = mset messageIDs
            \<and> (0 < TotalExported result \<longrightarrow>
                 (\<forall>data. marshal_processed E processedEmails = Inr data
                    \<and> write_fails E (manifest_path cfg) = None
                    \<longrightarrow> files w' (manifest_path cfg) = Some data))"
proof -
  let ?n = "if exporter_Config.ParallelWorkers cfg \<le> 0 then 1
            else nat (exporter_Config.ParallelWorkers cfg)"
  from assms obtain outcomes w1 ps where
    p: "pool_exec (exportSingleEmail cfg E) messageIDs ?n sched w = Some (outcomes, w1)"
    and c: "export_collect outcomes (empty_Result, []) = (result, ps)"
    and w': "w' = (if length ps > 0 then snd (saveProcessedEmailsFilter cfg E ps w1) else w1)"
    by (rule exportEmails_Some)
  have n: "0 < ?n" by simp
  from export_collect_counts [OF c]
  have len: "int (length ps) = TotalExported result"
    and tot: "TotalExported result + exporter_Result.TotalFailed result = int (length outcomes)"
    by (simp_all add: empty_Result_def)
  from export_collect_records [OF c]
  have ids: "map ID ps = map fst (filter (\<lambda>out. \<not> isl (snd out)) outcomes)"
    and fails: "map exporter_Failure.EmailID (exporter_Result.Failures result) =
                  map fst (filter (\<lambda>out. isl (snd out)) outcomes)"
    by (simp_all add: empty_Result_def)
  have "length (map ID ps) + length (map exporter_Failure.EmailID (exporter_Result.Failures result))
          = length outcomes"
    unfolding ids fails length_map by (rule sum_length_filter_compl [THEN trans [OF add.commute]])
  with len tot
  have nfail: "int (length (exporter_Result.Failures result)) = exporter_Result.TotalFailed result"
    by simp
  have part: "mset (map ID ps)
                + mset (map exporter_Failure.EmailID (exporter_Result.Failures result))
                = mset messageIDs"
  proof -
    have "mset (map fst (filter (\<lambda>out. \<not> isl (snd out)) outcomes))
            + mset (map fst (filter (\<lambda>out. isl (snd out)) outcomes))
          = mset (map fst outcomes)"
      by (induction outcomes) auto
    with pool_exec_outcomes [OF p n] show ?thesis by (simp only: ids fails)
  qed
  have written: "files w' (manifest_path cfg) = Some data"
    if "0 < TotalExported result" "marshal_processed E ps = Inr data \<and>
      write_fails E (manifest_path cfg) = None" for data
  proof -
    from that(1) len have "length ps > 0" by linarith
    with w' have "w' = snd (saveProcessedEmailsFilter cfg E ps w1)" by simp
    with saveProcessedEmailsFilter_written [of E ps data cfg] that(2) show ?thesis by simp
  qed
  from len nfail part written show ?thesis by blast
qed

lemma apply_limit_take:
  "apply_limit limit xs =
     (if 0 < limit \<and> limit < int (length xs) then take (nat limit) xs else xs)"
  by (simp add: apply_limit_def)

lemma take_one_of_three: "length xs = 3 \<Longrightarrow> take (nat 1) xs = [hd xs]"
  by (cases xs) simp_all

text \<open>
  Claim C2, as stated: with three matching messages and a limit of 1, the result reports
  \<open>TotalMatched = 3\<close>. The code sets \<open>TotalMatched\<close> from the list after the limit has cut
  it: the search returns three identifiers and the result reports 1.
\<close>

theorem TotalMatched_limit_counterexample:
  "map_option fst
     (searchEmails no_dates example_env (empty_filter\<lparr>Subject := ''Invoice''\<rparr>)
        (empty_world\<lparr>dirs := {''out''}\<rparr>)) = Some (Inr [''m1'', ''m2'', ''m3''])
   \<and> map_option fst
     (Export no_dates (example_config\<lparr>exporter_Config.Limit := 1\<rparr>) example_env
        (empty_filter\<lparr>Subject := ''Invoice''\<rparr>) (sequential_schedule 1 2) empty_world) =
     Some (Inr \<lparr>TotalMatched = 1, TotalExported = 1, exporter_Result.TotalFailed = 0,
                exporter_Result.TotalSize = 5, exporter_Result.Failures = []\<rparr>)"
proof
  show "map_option fst
     (searchEmails no_dates example_env (empty_filter\<lparr>Subject := ''Invoice''\<rparr>)
        (empty_world\<lparr>dirs := {''out''}\<rparr>)) = Some (Inr [''m1'', ''m2'', ''m3''])"
    by (simp only: example_search option.map fst_conv)
  show "map_option fst
     (Export no_dates (example_config\<lparr>exporter_Config.Limit := 1\<rparr>) example_env
        (empty_filter\<lparr>Subject := ''Invoice''\<rparr>) (sequential_schedule 1 2) empty_world) =
     Some (Inr \<lparr>TotalMatched = 1, TotalExported = 1, exporter_Result.TotalFailed = 0,
                exporter_Result.TotalSize = 5, exporter_Result.Failures = []\<rparr>)"
    by (rule example_limited_export)
qed

text \<open>
  Claim C2, amended: for an export whose search returns the identifiers \<open>found\<close>, the
  list that is processed is \<open>found\<close> cut to its first \<open>Limit\<close> identifiers when the limit
  is positive and smaller than the number found, and \<open>found\<close> itself otherwise; the result
  reports as \<open>TotalMatched\<close> the length of that list, not the number found. Every
  identifier of that list, and no other, ends as one record of the list marshalled for the
  manifest or as one entry of \<open>Failures\<close>, so that \<open>TotalExported\<close> and \<open>TotalFailed\<close> add
  up to \<open>TotalMatched\<close>; when items were exported, the marshalled list is what the manifest
  holds when marshalling and writing succeed. With three found and a limit of 1 the list
  processed is the first identifier found, the result reports \<open>TotalMatched = 1\<close>, and the
  one record or failure is that identifier's.
\<close>

theorem TotalMatched_counts_after_limit:
  "MkdirAll E (OutputDir cfg) w = Inr w1
   \<and> searchEmails L E filterConfig w1 = Some (Inr found, w2)
   \<and> Export L cfg E filterConfig sched w = Some (Inr result, w')
   \<longrightarrow> TotalMatched result = int (length (apply_limit (exporter_Config.Limit cfg) found))
     \<and> apply_limit (exporter_Config.Limit cfg) found =
           (if 0 < exporter_Config.Limit cfg \<and> exporter_Config.Limit cfg < int (length found)
            then take (nat (exporter_Config.Limit cfg)) found else found)
     \<and> TotalMatched result =
           (if 0 < exporter_Config.Limit cfg \<and> exporter_Config.Limit cfg < int (length found)
            then exporter_Config.Limit cfg else int (length found))
     \<and> TotalExported result + exporter_Result.TotalFailed result = TotalMatched result
     \<and> (\<exists>processedEmails.
           int (length processedEmails) = TotalExported result
           \<and> int (length (exporter_Result.Failures result)) = exporter_Result.TotalFailed result
           \<and> mset (map ID processedEmails)
               + mset (map exporter_Failure.EmailID (exporter_Result.Failures result))
               = mset (apply_limit (exporter_Config.Limit cfg) found)
           \<and> (length found = 3 \<and> exporter_Config.Limit cfg = 1
                \<longrightarrow> map ID processedEmails
                      @ map exporter_Failure.EmailID (exporter_Result.Failures result)
                    = [hd found])
           \<and> (0 < TotalExported result \<longrightarrow>
                (\<forall>data. marshal_processed E processedEmails = Inr data
                   \<and> write_fails E (manifest_path cfg) = None
                   \<longrightarrow> files w' (manifest_path cfg) = Some data)))
     \<and> (length found = 3 \<and> exporter_Config.Limit cfg = 1
          \<longrightarrow> TotalMatched result = 1
              \<and> TotalExported result + exporter_Result.TotalFailed result = 1
              \<and> apply_limit (exporter_Config.Limit cfg) found = [hd found])"
proof (intro impI)
  assume a: "MkdirAll E (OutputDir cfg) w = Inr w1
   \<and> searchEmails L E filterConfig w1 = Some (Inr found, w2)
   \<and> Export L cfg E filterConfig sched w = Some (Inr result, w')"
  let ?ids = "apply_limit (exporter_Config.Limit cfg) found"
  from a obtain w1' found' w2' result0 w3 where
    m: "MkdirAll E (OutputDir cfg) w = Inr w1'"
    and s: "searchEmails L E filterConfig w1' = Some (Inr found', w2')"
    and e: "exportEmails cfg E (apply_limit (exporter_Config.Limit cfg) found') sched w2'
              = Some (result0, w3)"
    and r: "result = result0\<lparr>TotalMatched := int (length (apply_limit (exporter_Config.Limit cfg) found'))\<rparr>"
    and w': "w' = save_metrics E (path_join (OutputDir cfg) ''metrics.json'')
            (TotalMatched result, TotalExported result, exporter_Result.TotalFailed result,
             exporter_Result.TotalSize result) w3"
    by (blast elim: Export_Inr)
  from a m have "w1' = w1" by simp
  with a s have f: "found' = found" "w2' = w2" by simp_all
  from r f have tm: "TotalMatched result = int (length ?ids)" by simp
  have lim: "int (length ?ids) =
           (if 0 < exporter_Config.Limit cfg \<and> exporter_Config.Limit cfg < int (length found)
            then exporter_Config.Limit cfg else int (length found))"
    by (rule length_apply_limit)
  have cut: "?ids =
           (if 0 < exporter_Config.Limit cfg \<and> exporter_Config.Limit cfg < int (length found)
            then take (nat (exporter_Config.Limit cfg)) found else found)"
    by (rule apply_limit_take)
  from exportEmails_total [OF e] r f
  have tot: "TotalExported result + exporter_Result.TotalFailed result = TotalMatched result"
    by simp
  have one: "?ids = [hd found]" if "length found = 3 \<and> exporter_Config.Limit cfg = 1"
    using that take_one_of_three [of found] by (simp add: apply_limit_def)
  have three: "TotalMatched result = 1
              \<and> TotalExported result + exporter_Result.TotalFailed result = 1
              \<and> ?ids = [hd found]"
    if "length found = 3 \<and> exporter_Config.Limit cfg = 1"
    using that tm lim tot one by simp
  from exportEmails_records [OF e] obtain ps where
    ps: "int (length ps) = TotalExported result0"
      "int (length (exporter_Result.Failures result0)) = exporter_Result.TotalFailed result0"
      "mset (map ID ps) + mset (map exporter_Failure.EmailID (exporter_Result.Failures result0))
         = mset (apply_limit (exporter_Config.Limit cfg) found')"
      "0 < TotalExported result0 \<longrightarrow>
         (\<forall>data. marshal_processed E ps = Inr data \<and> write_fails E (manifest_path cfg) = None
           \<longrightarrow> files w3 (manifest_path cfg) = Some data)"
    by blast
  have fw: "files w' (manifest_path cfg) = files w3 (manifest_path cfg)"
    unfolding w' by (rule save_metrics_other) (rule metrics_not_manifest)
  have p1: "int (length ps) = TotalExported result" using ps(1) r by simp
  have p2: "int (length (exporter_Result.Failures result)) = exporter_Result.TotalFailed result"
    using ps(2) r by simp
  have p3: "mset (map ID ps) + mset (map exporter_Failure.EmailID (exporter_Result.Failures result))
         = mset ?ids" using ps(3) r f by simp
  have p4: "length found = 3 \<and> exporter_Config.Limit cfg = 1
                \<longrightarrow> map ID ps @ map exporter_Failure.EmailID (exporter_Result.Failures result)
                    = [hd found]"
  proof
    assume h: "length found = 3 \<and> exporter_Config.Limit cfg = 1"
    from p3 one [OF h]
    have "mset (map ID ps @ map exporter_Failure.EmailID (exporter_Result.Failures result))
            = {#hd found#}" by simp
    then show "map ID ps @ map exporter_Failure.EmailID (exporter_Result.Failures result)
                    = [hd found]" by (simp only: mset_single_iff)
  qed
  have p5: "0 < TotalExported result \<longrightarrow>
         (\<forall>data. marshal_processed E ps = Inr data \<and> write_fails E (manifest_path cfg) = None
           \<longrightarrow> files w' (manifest_path cfg) = Some data)"
    using ps(4) r fw by simp
  have ex: "\<exists>processedEmails.
           int (length processedEmails) = TotalExported result
           \<and> int (length (exporter_Result.Failures result)) = exporter_Result.TotalFailed result
           \<and> mset (map ID processedEmails)
               + mset (map exporter_Failure.EmailID (exporter_Result.Failures result))
               = mset (apply_limit (exporter_Config.Limit cfg) found)
           \<and> (length found = 3 \<and> exporter_Config.Limit cfg = 1
                \<longrightarrow> map ID processedEmails
                      @ map exporter_Failure.EmailID (exporter_Result.Failures result)
                    = [hd found])
           \<and> (0 < TotalExported result \<longrightarrow>
                (\<forall>data. marshal_processed E processedEmails = Inr data
                   \<and> write_fails E (manifest_path cfg) = None
                   \<longrightarrow> files w' (manifest_path cfg) = Some data))"
    using p1 p2 p3 p4 p5 by blast
  from tm cut tm [THEN trans, OF lim] tot ex three
  show "TotalMatched result = int (length (apply_limit (exporter_Config.Limit cfg) found))
     \<and> apply_limit (exporter_Config.Limit cfg) found =
           (if 0 < exporter_Config.Limit cfg \<and> exporter_Config.Limit cfg < int (length found)
            then take (nat (exporter_Config.Limit cfg)) found else found)
     \<and> TotalMatched result =
           (if 0 < exporter_Config.Limit cfg \<and> exporter_Config.Limit cfg < int (length found)
            then exporter_Config.Limit cfg else int (length found))
     \<and> TotalExported result + exporter_Result.TotalFailed result = TotalMatched result
     \<and> (\<exists>processedEmails.
           int (length processedEmails) = TotalExported result
           \<and> int (length (exporter_Result.Failures result)) = exporter_Result.TotalFailed result
           \<and> mset (map ID processedEmails)
               + mset (map exporter_Failure.EmailID (exporter_Result.Failures result))
               = mset (apply_limit (exporter_Config.Limit cfg) found)
           \<and> (length found = 3 \<and> exporter_Config.Limit cfg = 1
                \<longrightarrow> map ID processedEmails
                      @ map exporter_Failure.EmailID (exporter_Result.Failures result)
                    = [hd found])
           \<and> (0 < TotalExported result \<longrightarrow>
                (\<forall>data. marshal_processed E processedEmails = Inr data
                   \<and> write_fails E (manifest_path cfg) = None
                   \<longrightarrow> files w' (manifest_path cfg) = Some data)))
     \<and> (length found = 3 \<and> exporter_Config.Limit cfg = 1
          \<longrightarrow> TotalMatched result = 1
              \<and> TotalExported result + exporter_Result.TotalFailed result = 1
              \<and> apply_limit (exporter_Config.Limit cfg) found = [hd found])"
    by (intro conjI impI) blast+
qed

theorem TotalMatched_counts_after_limit_witness:
  "map_option (\<lambda>(r, w). case r of Inl err \<Rightarrow> None | Inr result \<Rightarrow> Some (TotalMatched result))
     (Export no_dates (example_config\<lparr>exporter_Config.Limit := 1\<rparr>) example_env
        (empty_filter\<lparr>Subject := ''Invoice''\<rparr>) (sequential_schedule 1 2) empty_world)
   = Some (Some 1)
   \<and> apply_limit (exporter_Config.Limit (example_config\<lparr>exporter_Config.Limit := 1\<rparr>))
         [''m1'', ''m2'', ''m3''] = [''m1'']"
proof -
  let ?cfg = "example_config\<lparr>exporter_Config.Limit := 1\<rparr>"
  let ?f = "empty_filter\<lparr>Subject := ''Invoice''\<rparr>"
  let ?R = "\<lparr>TotalMatched = 1, TotalExported = 1, exporter_Result.TotalFailed = 0,
                exporter_Result.TotalSize = 5, exporter_Result.Failures = []\<rparr>"
  from example_limited_export obtain w' where
    run: "Export no_dates ?cfg example_env ?f (sequential_schedule 1 2) empty_world
            = Some (Inr ?R, w')"
    by (cases "Export no_dates ?cfg example_env ?f (sequential_schedule 1 2) empty_world") auto
  have mk: "MkdirAll example_env (OutputDir ?cfg) empty_world = Inr (empty_world\<lparr>dirs := {''out''}\<rparr>)"
    by (simp add: MkdirAll_def example_fs example_config_def empty_world_def)
  note se = example_search [of ?f "empty_world\<lparr>dirs := {''out''}\<rparr>"]
  from TotalMatched_counts_after_limit [rule_format, OF conjI [OF mk conjI [OF se run]]]
  have "length [''m1'', ''m2'', ''m3''] = 3 \<and> exporter_Config.Limit ?cfg = 1
          \<longrightarrow> TotalMatched ?R = 1
              \<and> apply_limit (exporter_Config.Limit ?cfg) [''m1'', ''m2'', ''m3'']
                  = [hd [''m1'', ''m2'', ''m3'']]" by blast
  then have "TotalMatched ?R = 1
     \<and> apply_limit (exporter_Config.Limit ?cfg) [''m1'', ''m2'', ''m3''] = [''m1'']"
    by (simp add: example_config_def)
  with run show ?thesis by simp
qed

section \<open>Properties of the importer\<close>














section \<open>Properties of the cleaner\<close>

lemma cleanup_loop_dry_run:
  "cleaner_Config.DryRun cfg \<Longrightarrow>
     cleanup_loop cfg E emails result w =
       (result\<lparr>TotalProcessed := TotalProcessed result + int (length emails)\<rparr>, w)"
proof (induction emails arbitrary: result)
  case Nil
  then show ?case by simp
next
  case (Cons email rest)
  then show ?case by (simp add: cleanupSingleEmail_def add.assoc)
qed

lemma save_metrics_calls: "calls (save_metrics E filename m w) = calls w"
  by (auto simp: save_metrics_def WriteFile_def split: sum.splits option.splits)

lemma Cleanup_dry_run:
  assumes "cleaner_Config.DryRun cfg" "loadProcessedEmails cfg E w = Inr loaded"
  shows "\<exists>result w'. Cleanup cfg E w = (Inr result, w')
           \<and> TotalProcessed result = int (length (apply_limit (cleaner_Config.Limit cfg) loaded))
           \<and> cleaner_Result.TotalFound result
               = int (length (apply_limit (cleaner_Config.Limit cfg) loaded))
           \<and> cleaner_Result.TotalFailed result = 0
           \<and> cleaner_Result.Failures result = []
           \<and> calls w' = calls w"
  using assms
  by (simp add: Cleanup_def cleanupEmails_def cleanup_loop_dry_run empty_cleanup_Result_def
      save_metrics_calls Let_def)

lemma example_load:
  "FilterFile cfg = ''out/processed_emails.json'' \<Longrightarrow>
     loadProcessedEmails cfg example_env example_cleanup_world
       = Inr [\<lparr>ID = ''m1'', Size = 5\<rparr>, \<lparr>ID = ''m3'', Size = 5\<rparr>]"
  by (simp add: loadProcessedEmails_def ReadFile_def example_cleanup_world_def example_env_def)

lemma example_cleanup_fields:
  "cleaner_Config.DryRun (example_cleanup_config\<lparr>cleaner_Config.Limit := l\<rparr>) = True"
  "cleaner_Config.Action (example_cleanup_config\<lparr>cleaner_Config.Limit := l\<rparr>) = ''delete''"
  "cleaner_Config.Limit (example_cleanup_config\<lparr>cleaner_Config.Limit := l\<rparr>) = l"
  "FilterFile (example_cleanup_config\<lparr>cleaner_Config.Limit := l\<rparr>) = ''out/processed_emails.json''"
  "cleaner_Config.DryRun example_cleanup_config = True"
  "cleaner_Config.Limit example_cleanup_config = 0"
  "FilterFile example_cleanup_config = ''out/processed_emails.json''"
  by (simp_all add: example_cleanup_config_def)

lemma example_limited_cleanup:
  "fst (Cleanup (example_cleanup_config\<lparr>cleaner_Config.Limit := 1\<rparr>) example_env
          example_cleanup_world) =
     Inr \<lparr>cleaner_Result.TotalFound = 1, TotalProcessed = 1, cleaner_Result.TotalFailed = 0,
          cleaner_Result.Action = ''delete'', cleaner_Result.DryRun = True,
          cleaner_Result.Failures = []\<rparr>"
  by (simp add: Cleanup_def example_load apply_limit_def cleanupEmails_def
      cleanup_loop_dry_run empty_cleanup_Result_def example_cleanup_fields Let_def)

text \<open>
  Claim C4, as stated: every dry run over a manifest of \<open>N\<close> records returns
  \<open>TotalProcessed = N\<close>. A limit cuts the list before the loop: a dry run with a limit of 1
  over a manifest of two records returns \<open>TotalProcessed = 1\<close>.
\<close>

theorem dry_run_limit_counterexample:
  "cleaner_Config.DryRun (example_cleanup_config\<lparr>cleaner_Config.Limit := 1\<rparr>)
   \<and> loadProcessedEmails (example_cleanup_config\<lparr>cleaner_Config.Limit := 1\<rparr>) example_env
        example_cleanup_world = Inr [\<lparr>ID = ''m1'', Size = 5\<rparr>, \<lparr>ID = ''m3'', Size = 5\<rparr>]
   \<and> fst (Cleanup (example_cleanup_config\<lparr>cleaner_Config.Limit := 1\<rparr>) example_env
          example_cleanup_world) =
     Inr \<lparr>cleaner_Result.TotalFound = 1, TotalProcessed = 1, cleaner_Result.TotalFailed = 0,
          cleaner_Result.Action = ''delete'', cleaner_Result.DryRun = True,
          cleaner_Result.Failures = []\<rparr>"
  by (simp only: example_cleanup_fields example_load example_limited_cleanup simp_thms)

text \<open>
  Claim C4, amended: with the dry-run flag set, the handler of one item makes no call to
  the mail service and reports no error, whatever the action; a cleanup over a manifest
  that loads as \<open>N\<close> records makes no call to the mail service (none that modifies or
  deletes a message in particular), reports no failure, and reports as \<open>TotalProcessed\<close>
  the number of records after the limit has cut the list, which is \<open>N\<close> when the limit
  does not cut it.
\<close>

theorem dry_run_calls_nothing:
  "cleaner_Config.DryRun cfg \<longrightarrow>
     cleanupSingleEmail cfg E emailID w = (None, w)
     \<and> (\<forall>loaded. loadProcessedEmails cfg E w = Inr loaded \<longrightarrow>
          (\<exists>result w'.
             Cleanup cfg E w = (Inr result, w')
             \<and> calls w' = calls w
             \<and> filter modifies (calls w') = filter modifies (calls w)
             \<and> TotalProcessed result
                 = int (length (apply_limit (cleaner_Config.Limit cfg) loaded))
             \<and> cleaner_Result.TotalFailed result = 0
             \<and> (\<not> (cleaner_Config.Limit cfg > 0
                     \<and> int (length loaded) > cleaner_Config.Limit cfg)
                  \<longrightarrow> TotalProcessed result = int (length loaded))))"
proof (intro impI conjI allI)
  assume d: "cleaner_Config.DryRun cfg"
  then show "cleanupSingleEmail cfg E emailID w = (None, w)"
    by (simp add: cleanupSingleEmail_def)
  fix loaded
  assume l: "loadProcessedEmails cfg E w = Inr loaded"
  from Cleanup_dry_run [OF d l] obtain result w' where
    c: "Cleanup cfg E w = (Inr result, w')"
    and p: "TotalProcessed result = int (length (apply_limit (cleaner_Config.Limit cfg) loaded))"
    and f: "cleaner_Result.TotalFailed result = 0"
    and k: "calls w' = calls w"
    by blast
  have "TotalProcessed result = int (length loaded)"
    if "\<not> (cleaner_Config.Limit cfg > 0 \<and> int (length loaded) > cleaner_Config.Limit cfg)"
    using apply_limit_none [OF that] p by simp
  with c p f k show "\<exists>result w'.
             Cleanup cfg E w = (Inr result, w')
             \<and> calls w' = calls w
             \<and> filter modifies (calls w') = filter modifies (calls w)
             \<and> TotalProcessed result
                 = int (length (apply_limit (cleaner_Config.Limit cfg) loaded))
             \<and> cleaner_Result.TotalFailed result = 0
             \<and> (\<not> (cleaner_Config.Limit cfg > 0
                     \<and> int (length loaded) > cleaner_Config.Limit cfg)
                  \<longrightarrow> TotalProcessed result = int (length loaded))"
    by auto
qed

theorem dry_run_calls_nothing_witness:
  "(case fst (Cleanup example_cleanup_config example_env example_cleanup_world) of
      Inl err \<Rightarrow> None
    | Inr result \<Rightarrow> Some (TotalProcessed result, cleaner_Result.TotalFailed result))
     = Some (2, 0)
   \<and> calls (snd (Cleanup example_cleanup_config example_env example_cleanup_world)) = []"
proof -
  have l: "loadProcessedEmails example_cleanup_config example_env example_cleanup_world
             = Inr [\<lparr>ID = ''m1'', Size = 5\<rparr>, \<lparr>ID = ''m3'', Size = 5\<rparr>]"
    by (rule example_load) (rule example_cleanup_fields)
  have d: "cleaner_Config.DryRun example_cleanup_config"
    by (simp add: example_cleanup_fields)
  from dry_run_calls_nothing [rule_format, OF d, THEN conjunct2, rule_format, OF l]
  obtain result w' where
    "Cleanup example_cleanup_config example_env example_cleanup_world = (Inr result, w')"
    "calls w' = calls example_cleanup_world"
    "TotalProcessed result = int (length (apply_limit
        (cleaner_Config.Limit example_cleanup_config)
        [\<lparr>ID = ''m1'', Size = 5\<rparr>, \<lparr>ID = ''m3'', Size = 5\<rparr>]))"
    "cleaner_Result.TotalFailed result = 0"
    by blast
  then show ?thesis
    by (simp add: example_cleanup_fields apply_limit_def example_cleanup_world_def)
qed

end
